theory Spec2Isabelle
  imports Complex_Main "HOL-Library.Word" "HOL-Library.Multiset"
begin

section \<open>Strings of the source language\<close>

text \<open>
  A TypeScript string is a sequence of UTF-16 code units: \<open>length\<close> counts code units and
  \<open>slice\<close> cuts between them. A code unit is a 16-bit word; \<open>js\<close> embeds an ASCII literal.
\<close>

type_synonym jschar = "16 word"
type_synonym jsstring = "jschar list"

definition js :: "string \<Rightarrow> jsstring" where
  "js s = map of_char s"

text \<open>
  The characters \<open>String.prototype.trim\<close> removes and the regular-expression class \<open>\s\<close>
  matches: ECMAScript's WhiteSpace and LineTerminator code points.
\<close>

definition is_ws :: "jschar \<Rightarrow> bool" where
  "is_ws c \<longleftrightarrow>
     c \<in> {0x09, 0x0A, 0x0B, 0x0C, 0x0D, 0x20, 0xA0, 0x1680, 0x2028, 0x2029, 0x202F, 0x205F,
          0x3000, 0xFEFF}
     \<or> (0x2000 \<le> c \<and> c \<le> 0x200A)"

text \<open>The class \<open>\w\<close> (no \<open>i\<close> or \<open>u\<close> flag): ASCII letters, digits and the underscore.\<close>

definition is_word :: "jschar \<Rightarrow> bool" where
  "is_word c \<longleftrightarrow>
     (0x41 \<le> c \<and> c \<le> 0x5A) \<or> (0x61 \<le> c \<and> c \<le> 0x7A) \<or> (0x30 \<le> c \<and> c \<le> 0x39) \<or> c = 0x5F"

definition trimEnd :: "jsstring \<Rightarrow> jsstring" where
  "trimEnd s = rev (dropWhile is_ws (rev s))"

definition trim :: "jsstring \<Rightarrow> jsstring" where
  "trim s = trimEnd (dropWhile is_ws s)"

text \<open>\<open>s.slice(0, n)\<close> for a non-negative \<open>n\<close>.\<close>

definition slice0 :: "jsstring \<Rightarrow> nat \<Rightarrow> jsstring" where
  "slice0 s n = take n s"

text \<open>
  A value of type \<open>string | undefined\<close> is truthy when it is present and not empty;
  \<open>a || b\<close> yields \<open>a\<close> when \<open>a\<close> is truthy and \<open>b\<close> otherwise.
\<close>

fun truthy :: "jsstring option \<Rightarrow> bool" where
  "truthy None = False"
| "truthy (Some s) = (s \<noteq> [])"

definition js_or :: "jsstring option \<Rightarrow> jsstring option \<Rightarrow> jsstring option" where
  "js_or a b = (if truthy a then a else b)"

text \<open>The final \<open>|| ''\<close> of a chain: a falsy string becomes the empty string.\<close>

definition or_empty :: "jsstring option \<Rightarrow> jsstring" where
  "or_empty a = (if truthy a then the a else [])"

section \<open>Transcript records (parser.ts)\<close>

text \<open>
  The fields \<open>description\<close> and \<open>command\<close> of \<open>tool_input\<close>, and \<open>output\<close>, \<open>preview\<close> and
  \<open>truncated\<close> of \<open>tool_output\<close> (prefixed, since \<open>output\<close> is reserved here).
\<close>

record ToolInput =
  ti_description :: "jsstring option"
  ti_command :: "jsstring option"

record ToolOutput =
  to_output :: "jsstring option"
  to_preview :: "jsstring option"
  to_truncated :: "bool option"

text \<open>
  The union \<open>ClaudeMessage\<close>, discriminated by \<open>type\<close>. \<open>ClaudeOther\<close> stands for a record with
  any other tag, the \<open>default\<close> branch of \<open>extractContent\<close>. The arguments are the fields in
  the order of the interface: \<open>timestamp\<close>, then \<open>content\<close> or \<open>tool_name\<close>, \<open>tool_input\<close>,
  \<open>tool_output\<close>. The timestamp is optional because
  the parser tests it for truthiness; \<open>tool_input\<close> and \<open>tool_output\<close> are optional because
  the parser reads them with \<open>?.\<close>.
\<close>

datatype ClaudeMessage =
    ClaudeUserMessage "jsstring option" jsstring
  | ClaudeToolUse "jsstring option" jsstring "ToolInput option"
  | ClaudeToolResult "jsstring option" jsstring "ToolInput option" "ToolOutput option"
  | ClaudeAssistantMessage "jsstring option" jsstring
  | ClaudeOther "jsstring option"

text \<open>The field \<open>timestamp\<close>, which every kind of record carries first.\<close>

fun timestamp_of :: "ClaudeMessage \<Rightarrow> jsstring option" where
  "timestamp_of (ClaudeUserMessage ts c) = ts"
| "timestamp_of (ClaudeToolUse ts name inp) = ts"
| "timestamp_of (ClaudeToolResult ts name inp outp) = ts"
| "timestamp_of (ClaudeAssistantMessage ts c) = ts"
| "timestamp_of (ClaudeOther ts) = ts"

datatype Role = User | Assistant | Tool | System

text \<open>The result \<open>{text, tools, role}\<close> of \<open>extractContent\<close>.\<close>

record Extracted =
  ex_text :: jsstring
  ex_tools :: "jsstring list"
  ex_role :: Role

text \<open>\<open>x?.f\<close> on an optional object.\<close>

definition opt_field :: "('a \<Rightarrow> 'b option) \<Rightarrow> 'a option \<Rightarrow> 'b option" where
  "opt_field f x = (case x of None \<Rightarrow> None | Some v \<Rightarrow> f v)"

definition truncateOutput :: "jsstring \<Rightarrow> jsstring" where
  "truncateOutput out = (if length out > 1000 then slice0 out 1000 @ js ''...'' else out)"

fun extractContent :: "ClaudeMessage \<Rightarrow> Extracted" where
  "extractContent (ClaudeUserMessage ts c) = \<lparr>ex_text = c, ex_tools = [], ex_role = User\<rparr>"
| "extractContent (ClaudeAssistantMessage ts c) = \<lparr>ex_text = c, ex_tools = [], ex_role = Assistant\<rparr>"
| "extractContent (ClaudeToolUse ts name inp) =
     (let inputDesc = or_empty (js_or (opt_field ti_description inp) (opt_field ti_command inp))
      in \<lparr>ex_text = trim (js ''[Tool: '' @ name @ js ''] '' @ inputDesc),
          ex_tools = [name], ex_role = Tool\<rparr>)"
| "extractContent (ClaudeToolResult ts name inp outp) =
     (let out = or_empty (js_or (opt_field to_output outp) (opt_field to_preview outp));
          truncatedOutput = truncateOutput out
      in \<lparr>ex_text = trim (js ''[Tool Result: '' @ name @ js '']'' @ [0x0A] @ truncatedOutput),
          ex_tools = [name], ex_role = Tool\<rparr>)"
| "extractContent (ClaudeOther ts) = \<lparr>ex_text = [], ex_tools = [], ex_role = System\<rparr>"

section \<open>Regular expressions (the fragment parser.ts uses)\<close>

text \<open>
  The patterns of the parser are built from \<open>^\<close>, single characters of a class, greedy
  repetitions of a class, literals, alternatives, sequences and one capture group. \<open>rmatch\<close> is
  the backtracking matcher of ECMAScript in continuation style: a state is the current index, the
  rest of the input from there, and the text of group 1 if it has been closed.
\<close>

datatype re =
    Bol
  | Cls "jschar \<Rightarrow> bool"
  | Rep "jschar \<Rightarrow> bool" nat "nat option"
  | Lit jsstring
  | Alt re re
  | Seq re re
  | Cap re

type_synonym mstate = "nat \<times> jsstring \<times> jsstring option"

text \<open>Greedy choice of a repetition count: \<open>n\<close> first, then downwards to the minimum \<open>mn\<close>.\<close>

primrec try_down :: "(nat \<Rightarrow> 'r option) \<Rightarrow> nat \<Rightarrow> nat \<Rightarrow> 'r option" where
  "try_down f mn 0 = (if mn = 0 then f 0 else None)"
| "try_down f mn (Suc n) =
     (if Suc n < mn then None
      else case f (Suc n) of Some r \<Rightarrow> Some r | None \<Rightarrow> try_down f mn n)"

fun rmatch :: "re \<Rightarrow> mstate \<Rightarrow> (mstate \<Rightarrow> 'r option) \<Rightarrow> 'r option" where
  "rmatch Bol (i, rest, cap) k = (if i = 0 then k (i, rest, cap) else None)"
| "rmatch (Cls p) (i, rest, cap) k =
     (case rest of [] \<Rightarrow> None | c # cs \<Rightarrow> if p c then k (Suc i, cs, cap) else None)"
| "rmatch (Rep p mn mx) (i, rest, cap) k =
     (let avail = length (takeWhile p rest);
          n = (case mx of None \<Rightarrow> avail | Some m \<Rightarrow> min avail m)
      in try_down (\<lambda>j. k (i + j, drop j rest, cap)) mn n)"
| "rmatch (Lit l) (i, rest, cap) k =
     (if take (length l) rest = l then k (i + length l, drop (length l) rest, cap) else None)"
| "rmatch (Alt a b) st k = (case rmatch a st k of Some r \<Rightarrow> Some r | None \<Rightarrow> rmatch b st k)"
| "rmatch (Seq a b) st k = rmatch a st (\<lambda>st'. rmatch b st' k)"
| "rmatch (Cap r) (i, rest, cap) k =
     rmatch r (i, rest, cap) (\<lambda>(i', rest', cap'). k (i', rest', Some (take (i' - i) rest)))"

text \<open>A match attempt at index \<open>i\<close>, where \<open>rest\<close> is the input from \<open>i\<close>: the end index and group 1.\<close>

definition match_at :: "re \<Rightarrow> nat \<Rightarrow> jsstring \<Rightarrow> (nat \<times> jsstring option) option" where
  "match_at r i rest = rmatch r (i, rest, None) (\<lambda>(e, rest', cap). Some (e, cap))"

text \<open>\<open>exec\<close> from index \<open>i\<close>: the leftmost start at which the pattern matches, up to the end of input.\<close>

fun re_search :: "re \<Rightarrow> nat \<Rightarrow> jsstring \<Rightarrow> (nat \<times> nat \<times> jsstring option) option" where
  "re_search r i [] =
     (case match_at r i [] of Some (e, cap) \<Rightarrow> Some (i, e, cap) | None \<Rightarrow> None)"
| "re_search r i (c # cs) =
     (case match_at r i (c # cs) of
        Some (e, cap) \<Rightarrow> Some (i, e, cap)
      | None \<Rightarrow> re_search r (Suc i) cs)"

text \<open>\<open>s.match(r)\<close> for a pattern without the \<open>g\<close> flag: group 1 of the first match.\<close>

definition re_match1 :: "re \<Rightarrow> jsstring \<Rightarrow> jsstring option option" where
  "re_match1 r s = (case re_search r 0 s of None \<Rightarrow> None | Some (p, e, cap) \<Rightarrow> Some cap)"

lemma try_down_Some: "try_down f mn n = Some x \<Longrightarrow> \<exists>j. f j = Some x"
  by (induction n) (auto split: if_splits option.splits)

lemma rmatch_mono:
  "rmatch r st k = Some x \<Longrightarrow> \<exists>st'. fst st \<le> fst st' \<and> k st' = Some x"
proof (induction r arbitrary: st k x)
  case Bol
  then show ?case by (cases st) (auto split: if_splits)
next
  case (Cls p)
  obtain i rest cap where st: "st = (i, rest, cap)" by (cases st)
  from Cls obtain c cs where "rest = c # cs" "k (Suc i, cs, cap) = Some x"
    unfolding st by (auto split: if_splits list.splits)
  then show ?case unfolding st by (intro exI[of _ "(Suc i, cs, cap)"]) simp
next
  case (Rep p mn mx)
  obtain i rest cap where st: "st = (i, rest, cap)" by (cases st)
  from Rep obtain j where "k (i + j, drop j rest, cap) = Some x"
    unfolding st by (auto simp: Let_def dest: try_down_Some)
  then show ?case unfolding st by (intro exI[of _ "(i + j, drop j rest, cap)"]) simp
next
  case (Lit l)
  obtain i rest cap where st: "st = (i, rest, cap)" by (cases st)
  from Lit have "k (i + length l, drop (length l) rest, cap) = Some x"
    unfolding st by (auto split: if_splits)
  then show ?case unfolding st
    by (intro exI[of _ "(i + length l, drop (length l) rest, cap)"]) simp
next
  case (Alt a b)
  then show ?case by (auto split: option.splits)
next
  case (Seq a b)
  from Seq.prems obtain st' where a: "fst st \<le> fst st'" "rmatch b st' k = Some x"
    using Seq.IH(1) by fastforce
  from Seq.IH(2)[OF a(2)] a(1) show ?case by (meson le_trans)
next
  case (Cap r)
  obtain i rest cap where st: "st = (i, rest, cap)" by (cases st)
  from Cap.prems obtain st' where a: "i \<le> fst st'"
     "(case st' of (i', rest', cap') \<Rightarrow> k (i', rest', Some (take (i' - i) rest))) = Some x"
    unfolding st using Cap.IH by fastforce
  obtain i' rest' cap' where st': "st' = (i', rest', cap')" by (cases st')
  show ?case unfolding st using a unfolding st'
    by (intro exI[of _ "(i', rest', Some (take (i' - i) rest))"]) simp
qed

lemma match_at_le: "match_at r i rest = Some (e, cap) \<Longrightarrow> i \<le> e"
  unfolding match_at_def by (drule rmatch_mono) auto

lemma re_search_le: "re_search r i rest = Some (p, e, cap) \<Longrightarrow> i \<le> p \<and> p \<le> e"
proof (induction rest arbitrary: i)
  case Nil
  then show ?case by (auto split: option.splits dest: match_at_le)
next
  case (Cons c cs)
  then show ?case by (fastforce split: option.splits dest: match_at_le)
qed

text \<open>
  \<open>s.matchAll(r)\<close> for a pattern with the \<open>g\<close> flag: group 1 of every match from index \<open>i\<close> on.
  After a match the search resumes at its end, one further when the match was empty.
\<close>

function matchAll_from :: "re \<Rightarrow> jsstring \<Rightarrow> nat \<Rightarrow> jsstring option list" where
  "matchAll_from r s i =
     (if length s < i then []
      else case re_search r i (drop i s) of
             None \<Rightarrow> []
           | Some (p, e, cap) \<Rightarrow> cap # matchAll_from r s (if e = p then Suc e else e))"
  by pat_completeness auto
termination
  by (relation "measure (\<lambda>(r, s, i). Suc (length s) - i)") (auto dest!: re_search_le)

declare matchAll_from.simps [simp del]

definition matchAll :: "re \<Rightarrow> jsstring \<Rightarrow> jsstring option list" where
  "matchAll r s = matchAll_from r s 0"

section \<open>File paths mentioned in a text (extractFilePaths)\<close>

text \<open>The class \<open>[\w\-./]\<close>.\<close>

definition path_char :: "jschar \<Rightarrow> bool" where
  "path_char c \<longleftrightarrow> is_word c \<or> c = 0x2D \<or> c = 0x2E \<or> c = 0x2F"

text \<open>The prefix \<open>(?:^|\s)\<close> and the double quote.\<close>

definition lead :: re where
  "lead = Alt Bol (Cls is_ws)"

definition dq :: jsstring where
  "dq = [0x22]"

text \<open>
  The five patterns, in the order of the source:
  \<^verbatim>\<open>(?:^|\s)(\/[\w\-./]+\.\w+)\<close>, \<^verbatim>\<open>(?:^|\s)(\.\/[\w\-./]+)\<close>, \<^verbatim>\<open>(?:^|\s)(~\/[\w\-./]+)\<close>,
  a backtick, \<^verbatim>\<open>([^`]+\.\w{1,5})\<close> and a backtick, and \<^verbatim>\<open>"filePath":\s*"([^"]+)"\<close>.
\<close>

definition patterns :: "re list" where
  "patterns =
    [Seq lead (Cap (Seq (Lit (js ''/'')) (Seq (Rep path_char 1 None)
        (Seq (Lit (js ''.'')) (Rep is_word 1 None))))),
     Seq lead (Cap (Seq (Lit (js ''./'')) (Rep path_char 1 None))),
     Seq lead (Cap (Seq (Lit (js ''~/'')) (Rep path_char 1 None))),
     Seq (Lit [0x60]) (Seq (Cap (Seq (Rep (\<lambda>c. c \<noteq> 0x60) 1 None)
        (Seq (Lit (js ''.'')) (Rep is_word 1 (Some 5))))) (Lit [0x60])),
     Seq (Lit (dq @ js ''filePath'' @ dq @ js '':'')) (Seq (Rep is_ws 0 None)
        (Seq (Lit dq) (Seq (Cap (Rep (\<lambda>c. c \<noteq> 0x22) 1 None)) (Lit dq))))]"

text \<open>\<open>s.includes(t)\<close> and \<open>s.startsWith(t)\<close>.\<close>

fun str_includes :: "jsstring \<Rightarrow> jsstring \<Rightarrow> bool" where
  "str_includes [] t = (t = [])"
| "str_includes (c # cs) t = (take (length t) (c # cs) = t \<or> str_includes cs t)"

definition startsWith :: "jsstring \<Rightarrow> jsstring \<Rightarrow> bool" where
  "startsWith s t = (take (length t) s = t)"

text \<open>
  One match handed to the \<open>Set\<close>: kept when group 1 is a non-empty string without \<open>http\<close> that does
  not start with \<open>.com\<close>. The set keeps insertion order, so a new element goes to the end.
\<close>

definition add_file :: "jsstring list \<Rightarrow> jsstring option \<Rightarrow> jsstring list" where
  "add_file files m =
     (case m of
        None \<Rightarrow> files
      | Some file \<Rightarrow>
          if file \<noteq> [] \<and> \<not> str_includes file (js ''http'') \<and> \<not> startsWith file (js ''.com'')
          then (if file \<in> set files then files else files @ [file])
          else files)"

definition extractFilePaths :: "jsstring \<Rightarrow> jsstring list" where
  "extractFilePaths content =
     foldl (\<lambda>files pattern. foldl add_file files (matchAll pattern content)) [] patterns"

section \<open>Parsing a session file (parseSessionFile)\<close>

text \<open>
  \<open>new Date(s)\<close>: the date a timestamp string denotes, kept as that string. A string that
  denotes no date gives an Invalid Date; the parser keeps it like any other date.
\<close>

datatype Date = Date jsstring

record ParsedMessage =
  index :: nat
  role :: Role
  content :: jsstring
  timestamp :: "Date option"
  tokenCount :: nat
  toolsUsed :: "jsstring list"
  filesMentioned :: "jsstring list"

record ParsedSession =
  sessionId :: jsstring
  sourcePath :: jsstring
  projectName :: "jsstring option"
  createdAt :: "Date option"
  updatedAt :: "Date option"
  messages :: "ParsedMessage list"
  totalTokens :: nat
  totalCost :: nat

text \<open>
  What the parser takes from the platform: \<open>fs.readFileSync(path, 'utf-8')\<close> (\<open>None\<close> when it
  throws), \<open>JSON.parse(line) as ClaudeMessage\<close> (\<open>None\<close> when it throws, so that the inner
  \<open>catch\<close> skips the line) and \<open>path.basename(path, '.jsonl')\<close>. A parsed line is taken to have
  the fields its tag declares.
\<close>

record FileSystem =
  readFileSync :: "jsstring \<Rightarrow> jsstring option"
  JSON_parse :: "jsstring \<Rightarrow> ClaudeMessage option"
  basename :: "jsstring \<Rightarrow> jsstring"

text \<open>\<open>s.split('\n')\<close>: the pieces between line feeds, at least one piece.\<close>

fun split_nl :: "jsstring \<Rightarrow> jsstring list" where
  "split_nl [] = [[]]"
| "split_nl (c # cs) =
     (if c = 0x0A then [] # split_nl cs
      else (case split_nl cs of [] \<Rightarrow> [[c]] | l # ls \<Rightarrow> (c # l) # ls))"

text \<open>The non-empty lines of the trimmed file content.\<close>

definition session_lines :: "jsstring \<Rightarrow> jsstring list" where
  "session_lines file_content = filter (\<lambda>l. l \<noteq> []) (split_nl (trim file_content))"

definition isToolUse :: "ClaudeMessage \<Rightarrow> bool" where
  "isToolUse m = (case m of ClaudeToolUse ts name inp \<Rightarrow> True | _ \<Rightarrow> False)"

text \<open>
  The loop state: the messages pushed so far, \<open>firstTimestamp\<close> and \<open>lastTimestamp\<close>.
  \<open>parse_line\<close> is one iteration of the loop over the lines.
\<close>

type_synonym pstate = "ParsedMessage list \<times> Date option \<times> Date option"

definition parse_line :: "FileSystem \<Rightarrow> pstate \<Rightarrow> jsstring \<Rightarrow> pstate" where
  "parse_line fs st line =
     (case st of (msgs, firstTimestamp, lastTimestamp) \<Rightarrow>
        (case JSON_parse fs line of
           None \<Rightarrow> st
         | Some parsed \<Rightarrow>
             let (first', last') =
                   (if truthy (timestamp_of parsed)
                    then let ts = Date (the (timestamp_of parsed))
                         in (if firstTimestamp = None then Some ts else firstTimestamp, Some ts)
                    else (firstTimestamp, lastTimestamp));
                 ex = extractContent parsed
             in if ex_text ex = [] \<or> length (ex_text ex) < 10 then (msgs, first', last')
                else if isToolUse parsed then (msgs, first', last')
                else (msgs @
                        [\<lparr>index = length msgs,
                          role = ex_role ex,
                          content = ex_text ex,
                          timestamp = (if truthy (timestamp_of parsed)
                                       then Some (Date (the (timestamp_of parsed))) else None),
                          tokenCount = (length (ex_text ex) + 3) div 4,
                          toolsUsed = ex_tools ex,
                          filesMentioned = extractFilePaths (ex_text ex)\<rparr>],
                      first', last')))"

text \<open>The pattern \<^verbatim>\<open>\/([^/]+)\/(?:src|app|lib|node_modules)\<close> of the project name.\<close>

definition projectPattern :: re where
  "projectPattern =
     Seq (Lit (js ''/'')) (Seq (Cap (Rep (\<lambda>c. c \<noteq> 0x2F) 1 None)) (Seq (Lit (js ''/''))
       (Alt (Lit (js ''src'')) (Alt (Lit (js ''app'')) (Alt (Lit (js ''lib''))
         (Lit (js ''node_modules'')))))))"

text \<open>
  The loop that looks for the project name: at the first match it takes group 1 (\<open>match[1]\<close>)
  and leaves.
\<close>

fun inferProjectName :: "ParsedMessage list \<Rightarrow> jsstring option" where
  "inferProjectName [] = None"
| "inferProjectName (msg # rest) =
     (case filesMentioned msg of
        [] \<Rightarrow> inferProjectName rest
      | firstPath # others \<Rightarrow>
          (case re_match1 projectPattern firstPath of
             Some name \<Rightarrow> name
           | None \<Rightarrow> inferProjectName rest))"

definition parseSessionFile :: "FileSystem \<Rightarrow> jsstring \<Rightarrow> ParsedSession option" where
  "parseSessionFile fs filePath =
     (case readFileSync fs filePath of
        None \<Rightarrow> None
      | Some file_content \<Rightarrow>
          let lines = session_lines file_content
          in if lines = [] then None
             else case foldl (parse_line fs) ([], None, None) lines of
               (msgs, firstTimestamp, lastTimestamp) \<Rightarrow>
                 if msgs = [] then None
                 else Some \<lparr>sessionId = basename fs filePath,
                            sourcePath = filePath,
                            projectName = inferProjectName msgs,
                            createdAt = firstTimestamp,
                            updatedAt = lastTimestamp,
                            messages = msgs,
                            totalTokens = sum_list (map tokenCount msgs),
                            totalCost = 0\<rparr>)"

section \<open>The embedding batcher (embedder.ts)\<close>

text \<open>
  What a call can fail with: a rejected embedding request, or a statement the database rejects.
\<close>

datatype error = EmbedError | DbError

text \<open>
  An embedding is a list of numbers, taken as reals. \<open>embed(text)\<close> is the request to the
  embedding service: the parameter \<open>embedOne\<close> of the batcher, \<open>None\<close> when the request throws.
  The concurrency bound is an integer; the progress callback only reports and is left out.
\<close>

type_synonym vector = "real list"

text \<open>\<open>xs.slice(start, end)\<close> of ECMAScript, with negative indices counted from the end.\<close>

definition js_slice :: "'a list \<Rightarrow> int \<Rightarrow> int \<Rightarrow> 'a list" where
  "js_slice xs start end' =
     (let len = int (length xs);
          k = (if start < 0 then max (len + start) 0 else min start len);
          final = (if end' < 0 then max (len + end') 0 else min end' len)
      in take (nat (final - k)) (drop (nat k) xs))"

text \<open>
  \<open>results[k] = v\<close> on an array with holes: a negative \<open>k\<close> names a property and leaves the
  elements as they are, a \<open>k\<close> beyond the end extends the array.
\<close>

definition js_set :: "'a option list \<Rightarrow> int \<Rightarrow> 'a \<Rightarrow> 'a option list" where
  "js_set xs k v =
     (if k < 0 then xs
      else if nat k < length xs then xs[nat k := Some v]
      else xs @ replicate (nat k - length xs) None @ [Some v])"

text \<open>
  One window: every request of the batch is issued; if one of them fails, \<open>Promise.all\<close> rejects
  and so does the call; otherwise each embedding is stored at \<open>results[i + j]\<close>.
\<close>

definition run_batch ::
  "(jsstring \<Rightarrow> vector option) \<Rightarrow> jsstring list \<Rightarrow> int \<Rightarrow> vector option list
     \<Rightarrow> error + vector option list" where
  "run_batch embedOne batch i results =
     (if list_ex (\<lambda>t. embedOne t = None) batch then Inl EmbedError
      else Inr (fold (\<lambda>(j, t) r. js_set r (i + int j) (the (embedOne t))) (enumerate 0 batch) results))"

text \<open>
  The loop \<open>for (let i = 0; i < texts.length; i += concurrency)\<close>. It need not end, so the result
  is optional: \<open>None\<close> is a call that never returns.
\<close>

partial_function (option) embed_loop ::
  "(jsstring \<Rightarrow> vector option) \<Rightarrow> jsstring list \<Rightarrow> int \<Rightarrow> int \<Rightarrow> vector option list
     \<Rightarrow> (error + vector option list) option" where
  "embed_loop embedOne texts concurrency i results =
     (if i < int (length texts)
      then (case run_batch embedOne (js_slice texts i (i + concurrency)) i results of
              Inl e \<Rightarrow> Some (Inl e)
            | Inr results' \<Rightarrow> embed_loop embedOne texts concurrency (i + concurrency) results')
      else Some (Inr results))"

definition embedBatch ::
  "(jsstring \<Rightarrow> vector option) \<Rightarrow> jsstring list \<Rightarrow> int option
     \<Rightarrow> (error + vector option list) option" where
  "embedBatch embedOne texts concurrency =
     embed_loop embedOne texts (case concurrency of None \<Rightarrow> 5 | Some c \<Rightarrow> c) 0
       (replicate (length texts) None)"

section \<open>The store (db/index.ts, 001_init.sql)\<close>

text \<open>
  Row identifiers are UUIDs drawn by the database; here they are numbers drawn from a counter
  of the store, so that a new row gets an identifier no row has. \<open>NOW()\<close> reads the clock of
  the store. \<open>metadata\<close> is the JSON text that \<open>JSON.stringify\<close> makes of it.
\<close>

type_synonym uuid = nat

text \<open>The interface \<open>Session\<close> without \<open>id\<close>, the argument of \<open>upsertSession\<close>.\<close>

record NewSession =
  session_id :: jsstring
  source_path :: jsstring
  project_name :: "jsstring option"
  created_at :: "Date option"
  updated_at :: "Date option"
  message_count :: nat
  total_tokens :: nat
  total_cost :: nat
  metadata :: jsstring

text \<open>A row of the table \<open>sessions\<close>: the columns above, \<open>id\<close> and \<open>ingested_at\<close>.\<close>

record SessionRow = NewSession +
  row_id :: uuid
  ingested_at :: nat

text \<open>
  The interface \<open>Chunk\<close> without \<open>id\<close>, the element of the argument of \<open>insertChunks\<close>; the
  fields carry the prefix \<open>c_\<close> of the queries' alias.
\<close>

record Chunk =
  c_session_id :: uuid
  c_chunk_index :: nat
  c_role :: Role
  c_content :: jsstring
  c_embedding :: "vector option"
  c_token_count :: "nat option"
  c_tools_used :: "jsstring list option"
  c_files_mentioned :: "jsstring list option"
  c_created_at :: "Date option"
  c_metadata :: "jsstring option"

text \<open>A row of the table \<open>chunks\<close>: the columns above and \<open>id\<close>.\<close>

record ChunkRow = Chunk +
  chunk_id :: uuid

record store =
  sessions :: "SessionRow list"
  chunks :: "ChunkRow list"
  next_uuid :: uuid
  clock :: nat

definition empty_store :: store where
  "empty_store = \<lparr>sessions = [], chunks = [], next_uuid = 0, clock = 0\<rparr>"

text \<open>
  What the database accepts as a parameter of a statement. Whether it can read a date as a
  \<open>TIMESTAMPTZ\<close> (an Invalid Date it cannot), store a text (one with a NUL character it cannot),
  read a text as \<open>JSONB\<close>, and enter a text into the unique index on \<open>sessions.session_id\<close> or
  into the text-search index on \<open>chunks.content\<close> (both bound the size of an entry) are
  parameters of the store. The range of an \<open>INT\<close> column, the range of \<open>NUMERIC(10,4)\<close> and the
  number of parameters that one statement can carry are fixed.
\<close>

record PgInput =
  timestamptz_ok :: "Date \<Rightarrow> bool"
  text_ok :: "jsstring \<Rightarrow> bool"
  jsonb_ok :: "jsstring \<Rightarrow> bool"
  session_id_index_ok :: "jsstring \<Rightarrow> bool"
  content_index_ok :: "jsstring \<Rightarrow> bool"

definition int4_ok :: "nat \<Rightarrow> bool" where
  "int4_ok n \<longleftrightarrow> n \<le> 2147483647"

definition numeric_10_4_ok :: "nat \<Rightarrow> bool" where
  "numeric_10_4_ok n \<longleftrightarrow> n < 1000000"

definition max_parameters :: nat where
  "max_parameters = 65535"

text \<open>An absent value is sent as \<open>NULL\<close>, which every nullable column takes.\<close>

definition null_or :: "('a \<Rightarrow> bool) \<Rightarrow> 'a option \<Rightarrow> bool" where
  "null_or ok x = (case x of None \<Rightarrow> True | Some v \<Rightarrow> ok v)"

text \<open>
  \<open>INSERT INTO sessions ... ON CONFLICT (session_id) DO UPDATE SET ... RETURNING id\<close>. The
  database rejects the statement, whether the row is new or not, when it does not accept one of
  the nine parameters for its column; the query then throws and the store is unchanged.
  Otherwise a row with the same \<open>session_id\<close> is updated in place, all columns but \<open>id\<close>,
  \<open>session_id\<close> and \<open>created_at\<close>, or else a new row is added, and the result is the new store
  and the row's \<open>id\<close>. A lost connection is not represented.
\<close>

definition session_ok :: "PgInput \<Rightarrow> NewSession \<Rightarrow> bool" where
  "session_ok pg s \<longleftrightarrow>
     text_ok pg (session_id s) \<and> session_id_index_ok pg (session_id s)
     \<and> text_ok pg (source_path s)
     \<and> null_or (text_ok pg) (project_name s)
     \<and> null_or (timestamptz_ok pg) (created_at s)
     \<and> null_or (timestamptz_ok pg) (updated_at s)
     \<and> int4_ok (message_count s)
     \<and> int4_ok (total_tokens s)
     \<and> numeric_10_4_ok (total_cost s)
     \<and> jsonb_ok pg (metadata s)"

definition update_session :: "NewSession \<Rightarrow> nat \<Rightarrow> SessionRow \<Rightarrow> SessionRow" where
  "update_session s now r =
     r\<lparr>source_path := source_path s,
       project_name := project_name s,
       updated_at := updated_at s,
       message_count := message_count s,
       total_tokens := total_tokens s,
       total_cost := total_cost s,
       metadata := metadata s,
       ingested_at := now\<rparr>"

definition new_session_row :: "NewSession \<Rightarrow> uuid \<Rightarrow> nat \<Rightarrow> SessionRow" where
  "new_session_row s i now =
     \<lparr>session_id = session_id s,
      source_path = source_path s,
      project_name = project_name s,
      created_at = created_at s,
      updated_at = updated_at s,
      message_count = message_count s,
      total_tokens = total_tokens s,
      total_cost = total_cost s,
      metadata = metadata s,
      row_id = i,
      ingested_at = now\<rparr>"

definition upsert_session_row :: "store \<Rightarrow> NewSession \<Rightarrow> store \<times> uuid" where
  "upsert_session_row st s =
     (case List.find (\<lambda>r. session_id r = session_id s) (sessions st) of
        Some r \<Rightarrow>
          (st\<lparr>sessions :=
                map (\<lambda>r. if session_id r = session_id s then update_session s (clock st) r else r)
                  (sessions st)\<rparr>,
           row_id r)
      | None \<Rightarrow>
          (st\<lparr>sessions := sessions st @ [new_session_row s (next_uuid st) (clock st)],
              next_uuid := Suc (next_uuid st)\<rparr>,
           next_uuid st))"

definition upsertSession :: "PgInput \<Rightarrow> store \<Rightarrow> NewSession \<Rightarrow> error + store \<times> uuid" where
  "upsertSession pg st s =
     (if session_ok pg s then Inr (upsert_session_row st s) else Inl DbError)"

text \<open>The dimension of the column \<open>embedding vector(768)\<close>.\<close>

definition dimensions :: nat where
  "dimensions = 768"

text \<open>The key of the constraint \<open>UNIQUE(session_id, chunk_index)\<close>.\<close>

definition chunk_key :: "'a Chunk_scheme \<Rightarrow> uuid \<times> nat" where
  "chunk_key c = (c_session_id c, c_chunk_index c)"

text \<open>
  \<open>ON CONFLICT (session_id, chunk_index) DO UPDATE SET ...\<close> for one row of the statement: a row
  with the same key gets the new content, embedding, token count, tool and file lists and
  metadata; otherwise a new row is added. An absent list is stored as \<open>[]\<close>, absent metadata as
  \<open>{}\<close>.
\<close>

definition update_chunk :: "Chunk \<Rightarrow> ChunkRow \<Rightarrow> ChunkRow" where
  "update_chunk c r =
     r\<lparr>c_content := c_content c,
       c_embedding := c_embedding c,
       c_token_count := c_token_count c,
       c_tools_used := Some (case c_tools_used c of None \<Rightarrow> [] | Some ts \<Rightarrow> ts),
       c_files_mentioned := Some (case c_files_mentioned c of None \<Rightarrow> [] | Some fs \<Rightarrow> fs),
       c_metadata := Some (case c_metadata c of None \<Rightarrow> js ''{}'' | Some m \<Rightarrow> m)\<rparr>"

definition new_chunk_row :: "Chunk \<Rightarrow> uuid \<Rightarrow> ChunkRow" where
  "new_chunk_row c i =
     \<lparr>c_session_id = c_session_id c,
      c_chunk_index = c_chunk_index c,
      c_role = c_role c,
      c_content = c_content c,
      c_embedding = c_embedding c,
      c_token_count = c_token_count c,
      c_tools_used = Some (case c_tools_used c of None \<Rightarrow> [] | Some ts \<Rightarrow> ts),
      c_files_mentioned = Some (case c_files_mentioned c of None \<Rightarrow> [] | Some fs \<Rightarrow> fs),
      c_created_at = c_created_at c,
      c_metadata = Some (case c_metadata c of None \<Rightarrow> js ''{}'' | Some m \<Rightarrow> m),
      chunk_id = i\<rparr>"

definition upsert_chunk :: "Chunk \<Rightarrow> store \<Rightarrow> store" where
  "upsert_chunk c st =
     (if list_ex (\<lambda>r. chunk_key r = chunk_key c) (chunks st)
      then st\<lparr>chunks := map (\<lambda>r. if chunk_key r = chunk_key c then update_chunk c r else r)
                            (chunks st)\<rparr>
      else st\<lparr>chunks := chunks st @ [new_chunk_row c (next_uuid st)],
              next_uuid := Suc (next_uuid st)\<rparr>)"

text \<open>
  The parameters of one row of the statement that the database accepts for their columns: the
  index and the token count in the range of \<open>INT\<close>, the content a text that can be stored and
  indexed, the tool and file names texts that can be stored, the date one that the database can
  read, the metadata \<open>JSON\<close>.
\<close>

definition chunk_ok :: "PgInput \<Rightarrow> Chunk \<Rightarrow> bool" where
  "chunk_ok pg c \<longleftrightarrow>
     int4_ok (c_chunk_index c)
     \<and> text_ok pg (c_content c) \<and> content_index_ok pg (c_content c)
     \<and> null_or int4_ok (c_token_count c)
     \<and> null_or (list_all (text_ok pg)) (c_tools_used c)
     \<and> null_or (list_all (text_ok pg)) (c_files_mentioned c)
     \<and> null_or (timestamptz_ok pg) (c_created_at c)
     \<and> jsonb_ok pg (case c_metadata c of None \<Rightarrow> js ''{}'' | Some m \<Rightarrow> m)"

text \<open>
  The rejections of the statement: a parameter that the database does not accept for its column,
  more parameters (ten for each chunk) than one statement can carry, a chunk of a session that
  does not exist (the foreign key), an embedding of another dimension than the column's, or two
  rows of the statement with the same key (\<open>ON CONFLICT\<close> cannot update a row twice). A rejected
  statement changes nothing. A lost connection is not represented.
\<close>

definition statement_ok :: "PgInput \<Rightarrow> store \<Rightarrow> Chunk list \<Rightarrow> bool" where
  "statement_ok pg st cs \<longleftrightarrow>
     list_all (chunk_ok pg) cs
     \<and> 10 * length cs \<le> max_parameters
     \<and> list_all (\<lambda>c. list_ex (\<lambda>r. row_id r = c_session_id c) (sessions st)) cs
     \<and> list_all (\<lambda>c. case c_embedding c of None \<Rightarrow> True | Some v \<Rightarrow> length v = dimensions) cs
     \<and> distinct (map chunk_key cs)"

definition insertChunks :: "PgInput \<Rightarrow> store \<Rightarrow> Chunk list \<Rightarrow> error + store" where
  "insertChunks pg st cs =
     (if cs = [] then Inr st
      else if statement_ok pg st cs then Inr (fold upsert_chunk cs st)
      else Inl DbError)"

section \<open>The ingest command (cli.ts)\<close>

text \<open>The store and the counters of the run.\<close>

record run =
  db :: store
  processed :: nat
  skipped :: nat
  totalChunks :: nat

definition session_fields :: "ParsedSession \<Rightarrow> NewSession" where
  "session_fields session =
     \<lparr>session_id = sessionId session,
      source_path = sourcePath session,
      project_name = projectName session,
      created_at = createdAt session,
      updated_at = updatedAt session,
      message_count = length (messages session),
      total_tokens = totalTokens session,
      total_cost = totalCost session,
      metadata = js ''{}''\<rparr>"

definition prepare_chunk :: "uuid \<Rightarrow> ParsedMessage \<Rightarrow> Chunk" where
  "prepare_chunk sessionDbId msg =
     \<lparr>c_session_id = sessionDbId,
      c_chunk_index = index msg,
      c_role = role msg,
      c_content = content msg,
      c_embedding = None,
      c_token_count = Some (tokenCount msg),
      c_tools_used = Some (toolsUsed msg),
      c_files_mentioned = Some (filesMentioned msg),
      c_created_at = timestamp msg,
      c_metadata = None\<rparr>"

text \<open>\<open>chunks.forEach((chunk, i) => { chunk.embedding = embeddings[i] })\<close>; a hole reads as absent.\<close>

definition set_embeddings :: "Chunk list \<Rightarrow> vector option list \<Rightarrow> Chunk list" where
  "set_embeddings cs embeddings =
     map (\<lambda>(i, c). c\<lparr>c_embedding := (if i < length embeddings then embeddings ! i else None)\<rparr>)
       (enumerate 0 cs)"

text \<open>
  One iteration of the loop over the files, with its \<open>try\<close> and \<open>catch\<close>: \<open>embedFlag\<close> is
  \<open>opts.embed !== false\<close>. Whatever throws inside \<open>try\<close> (the session upsert, the embedding
  batch, the chunk insert) is caught and counts the file as skipped; what the statements before
  it wrote stays written. The result is \<open>None\<close> if the iteration does not return.
\<close>

definition ingest_file ::
  "FileSystem \<Rightarrow> PgInput \<Rightarrow> (jsstring \<Rightarrow> vector option) \<Rightarrow> bool \<Rightarrow> run \<Rightarrow> jsstring
     \<Rightarrow> run option" where
  "ingest_file fs pg embedOne embedFlag st file =
     (case parseSessionFile fs file of
        None \<Rightarrow> Some (st\<lparr>skipped := skipped st + 1\<rparr>)
      | Some session \<Rightarrow>
          if messages session = [] then Some (st\<lparr>skipped := skipped st + 1\<rparr>)
          else
            (case upsertSession pg (db st) (session_fields session) of
               Inl e \<Rightarrow> Some (st\<lparr>skipped := skipped st + 1\<rparr>)
             | Inr (db1, sessionDbId) \<Rightarrow>
                 let cs = map (prepare_chunk sessionDbId) (messages session);
                     embedded =
                       (if embedFlag
                        then map_option (map_sum id (set_embeddings cs))
                               (embedBatch embedOne (map c_content cs) None)
                        else Some (Inr cs))
                 in (case embedded of
                       None \<Rightarrow> None
                     | Some (Inl e) \<Rightarrow> Some (st\<lparr>db := db1, skipped := skipped st + 1\<rparr>)
                     | Some (Inr cs') \<Rightarrow>
                         (case insertChunks pg db1 cs' of
                            Inl e \<Rightarrow> Some (st\<lparr>db := db1, skipped := skipped st + 1\<rparr>)
                          | Inr db2 \<Rightarrow>
                              Some (st\<lparr>db := db2,
                                       processed := processed st + 1,
                                       totalChunks := totalChunks st + length cs'\<rparr>)))))"

text \<open>The loop over the files to process.\<close>

fun ingest_files ::
  "FileSystem \<Rightarrow> PgInput \<Rightarrow> (jsstring \<Rightarrow> vector option) \<Rightarrow> bool \<Rightarrow> run \<Rightarrow> jsstring list
     \<Rightarrow> run option" where
  "ingest_files fs pg embedOne embedFlag st [] = Some st"
| "ingest_files fs pg embedOne embedFlag st (file # files) =
     (case ingest_file fs pg embedOne embedFlag st file of
        None \<Rightarrow> None
      | Some st' \<Rightarrow> ingest_files fs pg embedOne embedFlag st' files)"

section \<open>Search (db/index.ts)\<close>

text \<open>
  The operators of the database that the queries use: \<open>a <=> b\<close>, the cosine distance of two
  vectors; \<open>to_tsvector('english', content) @@ plainto_tsquery(q)\<close>, the text-search
  predicate; and \<open>ts_rank(to_tsvector('english', content), plainto_tsquery(q))\<close>, which may be
  null. They are parameters of the queries; numbers are reals.
\<close>

record PgOps =
  cosine_distance :: "vector \<Rightarrow> vector \<Rightarrow> real"
  ts_match :: "jsstring \<Rightarrow> jsstring \<Rightarrow> bool"
  ts_rank :: "jsstring \<Rightarrow> jsstring \<Rightarrow> real option"

text \<open>The interface \<open>SearchResult\<close>, its fields with the prefix \<open>r_\<close>.\<close>

record SearchResult =
  r_session_id :: uuid
  r_source_session_id :: jsstring
  r_project_name :: "jsstring option"
  r_chunk_index :: nat
  r_role :: jsstring
  r_content :: jsstring
  r_similarity :: real
  r_created_at :: "Date option"

text \<open>The text of the column \<open>role\<close>.\<close>

fun role_text :: "Role \<Rightarrow> jsstring" where
  "role_text User = js ''user''"
| "role_text Assistant = js ''assistant''"
| "role_text Tool = js ''tool''"
| "role_text System = js ''system''"

text \<open>\<open>FROM chunks c JOIN sessions s ON c.session_id = s.id\<close>, in the order of the chunk table.\<close>

definition joined :: "store \<Rightarrow> (ChunkRow \<times> SessionRow) list" where
  "joined st =
     concat (map (\<lambda>c. map (\<lambda>s. (c, s)) (filter (\<lambda>s. row_id s = c_session_id c) (sessions st)))
               (chunks st))"

text \<open>The select list, but for the column \<open>similarity\<close>.\<close>

definition select_row :: "ChunkRow \<Rightarrow> SessionRow \<Rightarrow> real \<Rightarrow> SearchResult" where
  "select_row c s sim =
     \<lparr>r_session_id = c_session_id c,
      r_source_session_id = session_id s,
      r_project_name = project_name s,
      r_chunk_index = c_chunk_index c,
      r_role = role_text (c_role c),
      r_content = c_content c,
      r_similarity = sim,
      r_created_at = c_created_at c\<rparr>"

text \<open>\<open>LIMIT n\<close>: a negative \<open>n\<close> is an error of the statement.\<close>

definition sql_limit :: "int \<Rightarrow> 'a list \<Rightarrow> error + 'a list" where
  "sql_limit n rows = (if n < 0 then Inl DbError else Inr (take (nat n) rows))"

text \<open>
  \<open>semanticSearch(embedding, limit = 10, roleFilter?)\<close>. The role condition is added only
  when \<open>roleFilter\<close> is truthy. \<open>ORDER BY c.embedding <=> $1\<close> is what the index
  \<open>chunks_embedding_idx\<close> of 001_init.sql serves, and that index (\<open>ivfflat\<close>) is approximate: a
  scan of it reaches only the rows of the lists it probes for the query vector, and the rows
  it does not reach are missing from the result. Which rows a scan reaches is the parameter
  \<open>reached\<close>; a scan of the table itself reaches every row. The rows reached come by ascending
  distance, here as a stable sort: among rows of equal distance the database may return any
  order, and this is one of them.
\<close>

type_synonym scan = "vector \<Rightarrow> ChunkRow \<Rightarrow> bool"

definition semantic_where :: "jsstring option \<Rightarrow> ChunkRow \<times> SessionRow \<Rightarrow> bool" where
  "semantic_where roleFilter cs =
     (case cs of (c, s) \<Rightarrow>
        c_embedding c \<noteq> None
        \<and> (if truthy roleFilter then role_text (c_role c) = the roleFilter else True))"

definition distance_of :: "PgOps \<Rightarrow> vector \<Rightarrow> ChunkRow \<times> SessionRow \<Rightarrow> real" where
  "distance_of ops embedding cs = cosine_distance ops (the (c_embedding (fst cs))) embedding"

definition semantic_row :: "PgOps \<Rightarrow> vector \<Rightarrow> ChunkRow \<times> SessionRow \<Rightarrow> SearchResult" where
  "semantic_row ops embedding cs =
     select_row (fst cs) (snd cs) (1 - distance_of ops embedding cs)"

definition semanticSearch ::
  "PgOps \<Rightarrow> scan \<Rightarrow> store \<Rightarrow> vector \<Rightarrow> int option \<Rightarrow> jsstring option
     \<Rightarrow> error + SearchResult list" where
  "semanticSearch ops reached st embedding limit roleFilter =
     map_sum id (map (semantic_row ops embedding))
       (sql_limit (case limit of None \<Rightarrow> 10 | Some n \<Rightarrow> n)
          (sort_key (distance_of ops embedding)
             (filter (semantic_where roleFilter)
                (filter (\<lambda>cs. reached embedding (fst cs)) (joined st)))))"

text \<open>
  \<open>hybridSearch(embedding, keyword, limit = 10)\<close>: the score is
  \<open>0.7 * (1 - distance) + 0.3 * COALESCE(rank, 0)\<close>, and the rows come by descending score.
  No index orders by that score, so the database sorts all the rows that qualify.
\<close>

definition hybrid_score :: "real \<Rightarrow> real option \<Rightarrow> real" where
  "hybrid_score distance rank =
     7 / 10 * (1 - distance) + 3 / 10 * (case rank of None \<Rightarrow> 0 | Some r \<Rightarrow> r)"

definition hybrid_where :: "PgOps \<Rightarrow> jsstring \<Rightarrow> ChunkRow \<times> SessionRow \<Rightarrow> bool" where
  "hybrid_where ops keyword cs =
     (c_embedding (fst cs) \<noteq> None \<and> ts_match ops (c_content (fst cs)) keyword)"

definition score_of :: "PgOps \<Rightarrow> vector \<Rightarrow> jsstring \<Rightarrow> ChunkRow \<times> SessionRow \<Rightarrow> real" where
  "score_of ops embedding keyword cs =
     hybrid_score (distance_of ops embedding cs) (ts_rank ops (c_content (fst cs)) keyword)"

definition hybrid_row ::
  "PgOps \<Rightarrow> vector \<Rightarrow> jsstring \<Rightarrow> ChunkRow \<times> SessionRow \<Rightarrow> SearchResult" where
  "hybrid_row ops embedding keyword cs =
     select_row (fst cs) (snd cs) (score_of ops embedding keyword cs)"

definition hybridSearch ::
  "PgOps \<Rightarrow> store \<Rightarrow> vector \<Rightarrow> jsstring \<Rightarrow> int option \<Rightarrow> error + SearchResult list" where
  "hybridSearch ops st embedding keyword limit =
     map_sum id (map (hybrid_row ops embedding keyword))
       (sql_limit (case limit of None \<Rightarrow> 10 | Some n \<Rightarrow> n)
          (sort_key (\<lambda>cs. - score_of ops embedding keyword cs)
             (filter (hybrid_where ops keyword) (joined st))))"

text \<open>A list of numbers in descending order.\<close>

definition descending :: "real list \<Rightarrow> bool" where
  "descending xs = sorted_wrt (\<lambda>x y. y \<le> x) xs"

section \<open>Properties of the parser\<close>

subsection \<open>The retained records of a file\<close>

text \<open>
  A record is retained when its rendered text has at least 10 characters and it is not a tool
  invocation; \<open>chunk_of i r\<close> is the chunk pushed for a retained record \<open>r\<close> as the \<open>i\<close>-th.
\<close>

definition retained :: "ClaudeMessage \<Rightarrow> bool" where
  "retained parsed \<longleftrightarrow> 10 \<le> length (ex_text (extractContent parsed)) \<and> \<not> isToolUse parsed"

definition chunk_of :: "nat \<Rightarrow> ClaudeMessage \<Rightarrow> ParsedMessage" where
  "chunk_of i parsed =
     \<lparr>index = i,
      role = ex_role (extractContent parsed),
      content = ex_text (extractContent parsed),
      timestamp = (if truthy (timestamp_of parsed)
                   then Some (Date (the (timestamp_of parsed))) else None),
      tokenCount = (length (ex_text (extractContent parsed)) + 3) div 4,
      toolsUsed = ex_tools (extractContent parsed),
      filesMentioned = extractFilePaths (ex_text (extractContent parsed))\<rparr>"

definition retained_records :: "FileSystem \<Rightarrow> jsstring list \<Rightarrow> ClaudeMessage list" where
  "retained_records fs lines = filter retained (List.map_filter (JSON_parse fs) lines)"

text \<open>The chunks of a list of retained records, numbered from \<open>i\<close> on.\<close>

fun number_from :: "nat \<Rightarrow> ClaudeMessage list \<Rightarrow> ParsedMessage list" where
  "number_from i [] = []"
| "number_from i (r # rs) = chunk_of i r # number_from (Suc i) rs"

text \<open>The output a tool result shows: the output field, else the preview field, else nothing.\<close>

definition chosen_output :: "ToolOutput option \<Rightarrow> jsstring" where
  "chosen_output outp =
     (case outp of
        None \<Rightarrow> []
      | Some t \<Rightarrow>
          (case to_output t of
             Some s \<Rightarrow> if s \<noteq> [] then s else (case to_preview t of None \<Rightarrow> [] | Some p \<Rightarrow> p)
           | None \<Rightarrow> (case to_preview t of None \<Rightarrow> [] | Some p \<Rightarrow> p)))"

text \<open>The first line of the text of a tool result.\<close>

definition header :: "jsstring \<Rightarrow> jsstring" where
  "header name = js ''[Tool Result: '' @ name @ js '']''"

lemma parse_line_msgs:
  "fst (parse_line fs (msgs, f, l) line) =
     (case JSON_parse fs line of
        None \<Rightarrow> msgs
      | Some parsed \<Rightarrow> if retained parsed then msgs @ [chunk_of (length msgs) parsed] else msgs)"
  by (auto simp: parse_line_def retained_def chunk_of_def Let_def split: option.splits prod.splits)

lemma length_number_from: "length (number_from i rs) = length rs"
  by (induction rs arbitrary: i) auto

lemma foldl_parse_line_msgs:
  "fst (foldl (parse_line fs) (msgs, f, l) lines) =
     msgs @ number_from (length msgs) (retained_records fs lines)"
proof (induction lines arbitrary: msgs f l)
  case Nil
  then show ?case by (simp add: retained_records_def)
next
  case (Cons line lines)
  obtain msgs' f' l' where st: "parse_line fs (msgs, f, l) line = (msgs', f', l')"
    by (cases "parse_line fs (msgs, f, l) line")
  have m: "msgs' = (case JSON_parse fs line of
        None \<Rightarrow> msgs
      | Some parsed \<Rightarrow> if retained parsed then msgs @ [chunk_of (length msgs) parsed] else msgs)"
    using parse_line_msgs[of fs msgs f l line] st by simp
  show ?case
    by (simp add: st Cons.IH m retained_records_def split: option.splits)
qed

lemma map_index_number_from: "map index (number_from i rs) = [i..<i + length rs]"
  by (induction rs arbitrary: i) (auto simp: chunk_of_def upt_rec)

lemma map_content_number_from:
  "map content (number_from i rs) = map (\<lambda>r. ex_text (extractContent r)) rs"
  by (induction rs arbitrary: i) (auto simp: chunk_of_def)

lemma number_from_mem:
  "m \<in> set (number_from i rs) \<Longrightarrow> \<exists>r j. r \<in> set rs \<and> m = chunk_of j r"
proof (induction rs arbitrary: i)
  case Nil
  then show ?case by simp
next
  case (Cons a rs)
  from Cons.prems have "m = chunk_of i a \<or> m \<in> set (number_from (Suc i) rs)" by simp
  then show ?case
  proof
    assume "m = chunk_of i a"
    then show ?thesis by (intro exI[of _ a] exI[of _ i]) simp
  next
    assume "m \<in> set (number_from (Suc i) rs)"
    from Cons.IH[OF this] obtain r j where "r \<in> set rs" "m = chunk_of j r" by blast
    then show ?thesis by (intro exI[of _ r] exI[of _ j]) simp
  qed
qed

lemma parse_messages:
  assumes "parseSessionFile fs filePath = Some session"
  shows "messages session =
           number_from 0 (retained_records fs (session_lines (the (readFileSync fs filePath))))"
proof -
  from assms obtain c where c: "readFileSync fs filePath = Some c"
    by (auto simp: parseSessionFile_def split: option.splits)
  obtain msgs f l where st: "foldl (parse_line fs) ([], None, None) (session_lines c) = (msgs, f, l)"
    by (cases "foldl (parse_line fs) ([], None, None) (session_lines c)")
  have "msgs = number_from 0 (retained_records fs (session_lines c))"
    using foldl_parse_line_msgs[of fs "[]" None None "session_lines c"] st by simp
  moreover from assms have "messages session = msgs"
    by (auto simp: parseSessionFile_def c st Let_def split: if_splits)
  ultimately show ?thesis by (simp add: c)
qed

lemma parse_nonempty:
  "parseSessionFile fs filePath = Some session \<Longrightarrow> messages session \<noteq> []"
  by (auto simp: parseSessionFile_def Let_def split: option.splits if_splits prod.splits)

lemma trimEnd_all_ws: "(\<forall>c\<in>set s. is_ws c) \<Longrightarrow> trimEnd s = []"
  by (simp add: trimEnd_def)

lemma trimEnd_last: "s \<noteq> [] \<Longrightarrow> \<not> is_ws (last s) \<Longrightarrow> trimEnd s = s"
  by (cases s rule: rev_cases) (auto simp: trimEnd_def)

lemma trimEnd_append:
  "a \<noteq> [] \<Longrightarrow> \<not> is_ws (last a) \<Longrightarrow> trimEnd (a @ b) = a @ trimEnd b"
proof (cases "\<forall>c\<in>set b. is_ws c")
  case True
  assume "a \<noteq> []" "\<not> is_ws (last a)"
  then have "dropWhile is_ws (rev a) = rev a"
    by (cases a rule: rev_cases) auto
  with True show ?thesis by (simp add: trimEnd_def dropWhile_append)
next
  case False
  then show ?thesis by (auto simp: trimEnd_def dropWhile_append)
qed

lemma header_trim:
  "trim (js ''[Tool Result: '' @ name @ js '']'' @ rest) = header name @ trimEnd rest"
proof -
  have nl: "\<not> is_ws (0x5B :: jschar)" "\<not> is_ws (0x5D :: jschar)"
    by (simp_all add: is_ws_def)
  have "dropWhile is_ws (js ''[Tool Result: '' @ name @ js '']'' @ rest)
          = js ''[Tool Result: '' @ name @ js '']'' @ rest"
    using nl by (simp add: js_def)
  moreover have "trimEnd (header name @ rest) = header name @ trimEnd rest"
    by (rule trimEnd_append) (use nl in \<open>simp_all add: header_def js_def\<close>)
  ultimately show ?thesis by (simp add: trim_def header_def)
qed

lemma chosen_output_eq:
  "or_empty (js_or (opt_field to_output outp) (opt_field to_preview outp)) = chosen_output outp"
  by (auto simp: or_empty_def js_or_def opt_field_def chosen_output_def split: option.splits)

lemma tool_result_text:
  "ex_text (extractContent (ClaudeToolResult ts name inp outp)) =
     header name @ trimEnd ([0x0A] @ truncateOutput (chosen_output outp))"
  using header_trim[of name "[0x0A] @ truncateOutput (chosen_output outp)"]
  by (simp add: chosen_output_eq Let_def)

lemma length_header: "length (header name) = 15 + length name"
  by (simp add: header_def js_def)

text \<open>
  What the tool list of a chunk is said to be, by the kind of the record it comes from: the
  tool name alone for a tool result, nothing for a user or an assistant record; no chunk comes
  from another kind.
\<close>

fun tools_as_claimed :: "ClaudeMessage \<Rightarrow> ParsedMessage \<Rightarrow> bool" where
  "tools_as_claimed (ClaudeToolResult ts name inp outp) m = (role m = Tool \<and> toolsUsed m = [name])"
| "tools_as_claimed (ClaudeUserMessage ts c) m = (role m = User \<and> toolsUsed m = [])"
| "tools_as_claimed (ClaudeAssistantMessage ts c) m = (role m = Assistant \<and> toolsUsed m = [])"
| "tools_as_claimed (ClaudeToolUse ts name inp) m = False"
| "tools_as_claimed (ClaudeOther ts) m = False"

text \<open>An empty tool echo: the output and the preview are both absent or empty.\<close>

definition empty_echo :: "ToolOutput option \<Rightarrow> bool" where
  "empty_echo outp \<longleftrightarrow> \<not> truthy (opt_field to_output outp) \<and> \<not> truthy (opt_field to_preview outp)"

subsection \<open>An example session file\<close>

text \<open>
  Six lines: a user record too short to keep, a line that is not JSON, a tool invocation, a tool
  result without output, and a user and an assistant record that mention a path. \<open>demo_fs\<close> reads
  the file and parses each line to its record.
\<close>

definition demo_path :: jsstring where
  "demo_path = js ''/logs/ses_1.jsonl''"

definition l_short :: jsstring where
  \<open>l_short = js ''{"type":"user","content":"short"}''\<close>

definition l_bad :: jsstring where
  \<open>l_bad = js ''not json''\<close>

definition l_use :: jsstring where
  \<open>l_use = js ''{"type":"tool_use","tool_name":"Bash","tool_input":{"command":"ls -la /tmp"}}''\<close>

definition l_echo :: jsstring where
  \<open>l_echo = js ''{"type":"tool_result","tool_name":"Bash","tool_output":{}}''\<close>

definition l_rel :: jsstring where
  \<open>l_rel = js
     ''{"type":"user","timestamp":"2026-01-01T00:00:00Z","content":"see ./notes/todo now"}''\<close>

definition l_abs :: jsstring where
  \<open>l_abs = js
     ''{"type":"assistant","timestamp":"2026-01-01T00:00:05Z","content":"open /home/alice/myapp/src/index.ts"}''\<close>

definition demo_records :: "(jsstring \<times> ClaudeMessage) list" where
  "demo_records =
    [(l_short, ClaudeUserMessage None (js ''short'')),
     (l_use, ClaudeToolUse None (js ''Bash'')
        (Some \<lparr>ti_description = None, ti_command = Some (js ''ls -la /tmp'')\<rparr>)),
     (l_echo, ClaudeToolResult None (js ''Bash'') None
        (Some \<lparr>to_output = None, to_preview = None, to_truncated = None\<rparr>)),
     (l_rel, ClaudeUserMessage (Some (js ''2026-01-01T00:00:00Z'')) (js ''see ./notes/todo now'')),
     (l_abs, ClaudeAssistantMessage (Some (js ''2026-01-01T00:00:05Z''))
        (js ''open /home/alice/myapp/src/index.ts''))]"

definition demo_content :: jsstring where
  "demo_content = l_short @ [0x0A] @ l_bad @ [0x0A] @ l_use @ [0x0A] @ l_echo @ [0x0A, 0x0A]
     @ l_rel @ [0x0A] @ l_abs @ [0x0A]"

definition demo_fs :: FileSystem where
  "demo_fs = \<lparr>readFileSync = map_of [(demo_path, demo_content)],
              JSON_parse = map_of demo_records,
              basename = (\<lambda>p. if p = demo_path then js ''ses_1'' else p)\<rparr>"

definition demo_session :: ParsedSession where
  "demo_session =
     \<lparr>sessionId = js ''ses_1'',
      sourcePath = demo_path,
      projectName = Some (js ''myapp''),
      createdAt = Some (Date (js ''2026-01-01T00:00:00Z'')),
      updatedAt = Some (Date (js ''2026-01-01T00:00:05Z'')),
      messages =
        [\<lparr>index = 0, role = Tool, content = js ''[Tool Result: Bash]'', timestamp = None,
          tokenCount = 5, toolsUsed = [js ''Bash''], filesMentioned = []\<rparr>,
         \<lparr>index = 1, role = User, content = js ''see ./notes/todo now'',
          timestamp = Some (Date (js ''2026-01-01T00:00:00Z'')), tokenCount = 5, toolsUsed = [],
          filesMentioned = [js ''./notes/todo'']\<rparr>,
         \<lparr>index = 2, role = Assistant, content = js ''open /home/alice/myapp/src/index.ts'',
          timestamp = Some (Date (js ''2026-01-01T00:00:05Z'')), tokenCount = 9, toolsUsed = [],
          filesMentioned = [js ''/home/alice/myapp/src/index.ts'']\<rparr>],
      totalTokens = 19,
      totalCost = 0\<rparr>"

text \<open>The equations that evaluate a pattern on a given string.\<close>

lemmas regex_eval = js_def is_ws_def is_word_def path_char_def lead_def dq_def patterns_def
  match_at_def matchAll_def matchAll_from.simps extractFilePaths_def add_file_def startsWith_def
  Let_def

lemmas demo_lines_defs = l_short_def l_bad_def l_use_def l_echo_def l_rel_def l_abs_def

lemma demo_lines:
  "session_lines demo_content = [l_short, l_bad, l_use, l_echo, l_rel, l_abs]"
  by (simp add: session_lines_def trim_def trimEnd_def demo_content_def demo_lines_defs js_def
      is_ws_def)

lemma files_echo: "extractFilePaths (js ''[Tool Result: Bash]'') = []"
  by (simp add: regex_eval)

lemma files_rel: "extractFilePaths (js ''see ./notes/todo now'') = [js ''./notes/todo'']"
  by (simp add: regex_eval)

lemma files_abs:
  "extractFilePaths (js ''open /home/alice/myapp/src/index.ts'') =
     [js ''/home/alice/myapp/src/index.ts'']"
  by (simp add: regex_eval)

lemma project_rel: "re_match1 projectPattern (js ''./notes/todo'') = None"
  by (simp add: projectPattern_def re_match1_def match_at_def js_def)

lemma project_abs:
  "re_match1 projectPattern (js ''/home/alice/myapp/src/index.ts'') = Some (Some (js ''myapp''))"
  by (simp add: projectPattern_def re_match1_def match_at_def js_def)

lemma demo_parse: "parseSessionFile demo_fs demo_path = Some demo_session"
  by (simp add: parseSessionFile_def demo_fs_def demo_lines parse_line_def demo_records_def
      demo_session_def isToolUse_def trim_def trimEnd_def is_ws_def or_empty_def js_or_def
      opt_field_def truncateOutput_def Let_def
      demo_lines_defs js_def files_echo[unfolded js_def, simplified]
      files_rel[unfolded js_def, simplified] files_abs[unfolded js_def, simplified]
      project_rel[unfolded js_def, simplified] project_abs[unfolded js_def, simplified])

lemma tool_result_tools:
  "ex_tools (extractContent (ClaudeToolResult ts name inp outp)) = [name]"
  "ex_role (extractContent (ClaudeToolResult ts name inp outp)) = Tool"
  by (simp_all add: Let_def)

subsection \<open>Sequence indices\<close>

text \<open>
  Claim C2. For every session file that is accepted, the sequence indices of the emitted chunks
  are exactly \<open>0..n-1\<close> in encounter order, where \<open>n\<close>, at least 1, is the number of retained
  records of the file, whatever was filtered out before or between them; the chunks carry the
  rendered texts of the retained records in file order.
\<close>

theorem sequence_indices_dense:
  assumes "parseSessionFile fs filePath = Some session"
  shows "map index (messages session) = [0..<length (messages session)]
       \<and> 0 < length (messages session)
       \<and> length (messages session) =
           length (retained_records fs (session_lines (the (readFileSync fs filePath))))
       \<and> map content (messages session) =
           map (\<lambda>r. ex_text (extractContent r))
             (retained_records fs (session_lines (the (readFileSync fs filePath))))"
proof -
  let ?rs = "retained_records fs (session_lines (the (readFileSync fs filePath)))"
  have m: "messages session = number_from 0 ?rs"
    by (rule parse_messages[OF assms])
  have "length (messages session) = length ?rs"
    by (simp add: m length_number_from)
  moreover have "0 < length (messages session)"
    using parse_nonempty[OF assms] by simp
  moreover have "map index (messages session) = [0..<length ?rs]"
    by (simp add: m map_index_number_from)
  moreover have "map content (messages session) = map (\<lambda>r. ex_text (extractContent r)) ?rs"
    by (simp add: m map_content_number_from)
  ultimately show ?thesis by simp
qed

text \<open>C2 on the example file: six lines, three retained records, indices 0, 1, 2.\<close>

theorem sequence_indices_dense_witness:
  "map index (messages demo_session) = [0, 1, 2]
   \<and> length (session_lines (the (readFileSync demo_fs demo_path))) = 6
   \<and> length (retained_records demo_fs (session_lines (the (readFileSync demo_fs demo_path)))) = 3"
  using sequence_indices_dense[OF demo_parse]
  by (simp add: demo_session_def demo_fs_def demo_lines)

subsection \<open>The text of a tool result\<close>

text \<open>
  Claim C6, as stated, fails: the rendered text is trimmed, so a tool result without output is
  rendered as the header alone, with no newline after it.
\<close>

theorem tool_result_text_counterexample:
  "ex_text (extractContent (ClaudeToolResult None (js ''Bash'') None None))
     \<noteq> js ''[Tool Result: Bash]'' @ [0x0A] @ []"
  by (subst tool_result_text)
    (simp add: header_def chosen_output_def truncateOutput_def trimEnd_def is_ws_def js_def)

text \<open>
  Claim C6, amended. For every tool-result record, the rendered text is the header
  \<open>[Tool Result: <name>]\<close> followed by the whitespace-trimmed end of a newline and the output
  (the output field, else the preview field, else empty; cut to its first 1000 characters plus
  \<open>...\<close> when longer). Hence an output longer than 1000 characters gives the header, a newline,
  exactly its first 1000 characters and \<open>...\<close>; a non-empty output of at most 1000 characters
  that does not end in whitespace gives the header, a newline and the output; and an output of
  at most 1000 characters that is empty or all whitespace gives the header alone.
\<close>

theorem tool_result_text_trimmed:
  "ex_text (extractContent (ClaudeToolResult ts name inp outp)) =
      header name @ trimEnd ([0x0A] @ truncateOutput (chosen_output outp))
   \<and> (1000 < length (chosen_output outp) \<longrightarrow>
        ex_text (extractContent (ClaudeToolResult ts name inp outp)) =
          header name @ [0x0A] @ take 1000 (chosen_output outp) @ js ''...'')
   \<and> (chosen_output outp \<noteq> [] \<and> length (chosen_output outp) \<le> 1000
        \<and> \<not> is_ws (last (chosen_output outp)) \<longrightarrow>
        ex_text (extractContent (ClaudeToolResult ts name inp outp)) =
          header name @ [0x0A] @ chosen_output outp)
   \<and> ((\<forall>c \<in> set (chosen_output outp). is_ws c) \<and> length (chosen_output outp) \<le> 1000 \<longrightarrow>
        ex_text (extractContent (ClaudeToolResult ts name inp outp)) = header name)"
proof -
  let ?out = "chosen_output outp"
  have dots: "\<not> is_ws (last ([0x0A] @ take 1000 ?out @ js ''...''))"
    by (simp add: js_def is_ws_def)
  have long: "1000 < length ?out \<Longrightarrow>
      trimEnd ([0x0A] @ truncateOutput ?out) = [0x0A] @ take 1000 ?out @ js ''...''"
    using trimEnd_last[OF _ dots] by (simp add: truncateOutput_def slice0_def)
  have short: "?out \<noteq> [] \<Longrightarrow> length ?out \<le> 1000 \<Longrightarrow> \<not> is_ws (last ?out) \<Longrightarrow>
      trimEnd ([0x0A] @ truncateOutput ?out) = [0x0A] @ ?out"
    using trimEnd_last[of "[0x0A] @ ?out"] by (simp add: truncateOutput_def)
  have blank: "(\<forall>c \<in> set ?out. is_ws c) \<Longrightarrow> length ?out \<le> 1000 \<Longrightarrow>
      trimEnd ([0x0A] @ truncateOutput ?out) = []"
    by (rule trimEnd_all_ws) (simp add: truncateOutput_def is_ws_def)
  show ?thesis
    unfolding tool_result_text using long short blank by simp
qed

text \<open>C6 on an output of 1001 characters, on a preview used as fallback, and on no output.\<close>

theorem tool_result_text_trimmed_witness:
  "ex_text (extractContent (ClaudeToolResult None (js ''Bash'') None
      (Some \<lparr>to_output = Some (replicate 1001 0x61), to_preview = None, to_truncated = None\<rparr>)))
     = js ''[Tool Result: Bash]'' @ [0x0A] @ replicate 1000 0x61 @ js ''...''
   \<and> ex_text (extractContent (ClaudeToolResult None (js ''Bash'') None
      (Some \<lparr>to_output = Some [], to_preview = Some (js ''done''), to_truncated = None\<rparr>)))
     = js ''[Tool Result: Bash]'' @ [0x0A] @ js ''done''
   \<and> ex_text (extractContent (ClaudeToolResult None (js ''Bash'') None None))
     = js ''[Tool Result: Bash]''"
proof -
  let ?long = "Some \<lparr>to_output = Some (replicate 1001 (0x61::jschar)), to_preview = None,
                     to_truncated = None\<rparr>"
  let ?prev = "Some \<lparr>to_output = Some [], to_preview = Some (js ''done''), to_truncated = None\<rparr>"
  have l: "chosen_output ?long = replicate 1001 0x61"
    and p: "chosen_output ?prev = js ''done''"
    and n: "chosen_output None = []"
    by (simp_all add: chosen_output_def js_def)
  have h: "header (js ''Bash'') = js ''[Tool Result: Bash]''"
    by (simp add: header_def js_def)
  have "1000 < length (chosen_output ?long)"
    unfolding l by simp
  with tool_result_text_trimmed[of None "js ''Bash''" None ?long, THEN conjunct2, THEN conjunct1]
  have a: "ex_text (extractContent (ClaudeToolResult None (js ''Bash'') None ?long))
             = js ''[Tool Result: Bash]'' @ [0x0A] @ replicate 1000 0x61 @ js ''...''"
    unfolding l h by (simp del: extractContent.simps)
  have "chosen_output ?prev \<noteq> [] \<and> length (chosen_output ?prev) \<le> 1000
          \<and> \<not> is_ws (last (chosen_output ?prev))"
    unfolding p by (simp add: js_def is_ws_def)
  with tool_result_text_trimmed[of None "js ''Bash''" None ?prev, THEN conjunct2, THEN conjunct2,
      THEN conjunct1]
  have b: "ex_text (extractContent (ClaudeToolResult None (js ''Bash'') None ?prev))
             = js ''[Tool Result: Bash]'' @ [0x0A] @ js ''done''"
    unfolding p h by (simp del: extractContent.simps)
  have "(\<forall>c \<in> set (chosen_output None). is_ws c) \<and> length (chosen_output None) \<le> 1000"
    unfolding n by simp
  with tool_result_text_trimmed[of None "js ''Bash''" None None, THEN conjunct2, THEN conjunct2,
      THEN conjunct2]
  have c: "ex_text (extractContent (ClaudeToolResult None (js ''Bash'') None None))
             = js ''[Tool Result: Bash]''"
    unfolding h by (simp del: extractContent.simps)
  from a b c show ?thesis by (simp del: extractContent.simps)
qed

subsection \<open>Empty tool echoes\<close>

text \<open>
  Claim C8, as stated, fails: the tool result of the example file has neither output nor
  preview, and the loop pushes a chunk for it.
\<close>

theorem empty_tool_echo_counterexample:
  "JSON_parse demo_fs l_echo =
     Some (ClaudeToolResult None (js ''Bash'') None
            (Some \<lparr>to_output = None, to_preview = None, to_truncated = None\<rparr>))
   \<and> empty_echo (Some \<lparr>to_output = None, to_preview = None, to_truncated = None\<rparr>)
   \<and> fst (parse_line demo_fs ([], None, None) l_echo) =
       [\<lparr>index = 0, role = Tool, content = js ''[Tool Result: Bash]'', timestamp = None,
         tokenCount = 5, toolsUsed = [js ''Bash''], filesMentioned = []\<rparr>]"
  by (simp add: parse_line_msgs demo_fs_def demo_records_def demo_lines_defs retained_def
      chunk_of_def tool_result_text header_def chosen_output_def truncateOutput_def trimEnd_def
      is_ws_def isToolUse_def empty_echo_def opt_field_def js_def
      tool_result_tools files_echo[unfolded js_def, simplified] del: extractContent.simps)

lemma empty_echo_chosen: "empty_echo outp \<Longrightarrow> chosen_output outp = []"
  by (auto simp: empty_echo_def chosen_output_def opt_field_def split: option.splits)

text \<open>
  Claim C8, amended. A tool-result record whose output and preview are both absent or empty is
  rendered as \<open>[Tool Result: <name>]\<close>, which has at least 15 characters, so the length filter
  keeps it: the loop appends one chunk for it, with that text and that tool name.
\<close>

theorem empty_tool_echo_retained:
  assumes "JSON_parse fs line = Some (ClaudeToolResult ts name inp outp)"
    and "empty_echo outp"
  shows "ex_text (extractContent (ClaudeToolResult ts name inp outp)) = header name
       \<and> 15 \<le> length (header name)
       \<and> fst (parse_line fs (msgs, firstTimestamp, lastTimestamp) line) =
           msgs @ [chunk_of (length msgs) (ClaudeToolResult ts name inp outp)]
       \<and> content (chunk_of (length msgs) (ClaudeToolResult ts name inp outp)) = header name
       \<and> toolsUsed (chunk_of (length msgs) (ClaudeToolResult ts name inp outp)) = [name]"
proof -
  have t: "ex_text (extractContent (ClaudeToolResult ts name inp outp)) = header name"
    using empty_echo_chosen[OF assms(2)]
    by (subst tool_result_text) (simp add: truncateOutput_def trimEnd_def is_ws_def)
  have "retained (ClaudeToolResult ts name inp outp)"
    unfolding retained_def t by (simp add: length_header isToolUse_def)
  then show ?thesis
    using t by (simp add: parse_line_msgs assms(1) length_header chunk_of_def tool_result_tools
        del: extractContent.simps)
qed

text \<open>C8 on the tool result of the example file.\<close>

theorem empty_tool_echo_retained_witness:
  "content (hd (fst (parse_line demo_fs ([], None, None) l_echo))) = js ''[Tool Result: Bash]''"
proof -
  have p: "JSON_parse demo_fs l_echo =
     Some (ClaudeToolResult None (js ''Bash'') None
            (Some \<lparr>to_output = None, to_preview = None, to_truncated = None\<rparr>))"
    by (simp add: demo_fs_def demo_records_def demo_lines_defs js_def)
  have e: "empty_echo (Some \<lparr>to_output = None, to_preview = None, to_truncated = None\<rparr>)"
    by (simp add: empty_echo_def opt_field_def)
  show ?thesis
    using empty_tool_echo_retained[OF p e, of "[]" None None]
    by (simp add: header_def js_def del: extractContent.simps)
qed

subsection \<open>Tool names of a chunk\<close>

lemma chunk_of_tools:
  "retained r \<Longrightarrow> tools_as_claimed r (chunk_of j r) \<and> length (toolsUsed (chunk_of j r)) \<le> 1"
  by (cases r) (auto simp: chunk_of_def retained_def isToolUse_def)

text \<open>
  Claim C10. Every emitted chunk lists at most one tool name: it comes from a line of the file
  whose record is a tool result, and then lists exactly that record's tool name, or a user or
  assistant record, and then lists none.
\<close>

theorem tools_used_at_most_one:
  assumes "parseSessionFile fs filePath = Some session"
    and "m \<in> set (messages session)"
  shows "length (toolsUsed m) \<le> 1
       \<and> (\<exists>line parsed. line \<in> set (session_lines (the (readFileSync fs filePath)))
             \<and> JSON_parse fs line = Some parsed
             \<and> content m = ex_text (extractContent parsed)
             \<and> tools_as_claimed parsed m)"
proof -
  let ?lines = "session_lines (the (readFileSync fs filePath))"
  from assms parse_messages[OF assms(1)] number_from_mem
  obtain r j where r: "r \<in> set (retained_records fs ?lines)" "m = chunk_of j r"
    by metis
  from r(1) have ret: "retained r" and "r \<in> set (List.map_filter (JSON_parse fs) ?lines)"
    by (simp_all add: retained_records_def)
  then obtain line where line: "line \<in> set ?lines" "JSON_parse fs line = Some r"
    by (auto simp: map_filter_def)
  have "content m = ex_text (extractContent r)"
    by (simp add: r(2) chunk_of_def)
  with chunk_of_tools[OF ret, of j] line r(2) show ?thesis
    by blast
qed

text \<open>C10 on the example file: one tool result, then a user and an assistant record.\<close>

theorem tools_used_at_most_one_witness:
  "map toolsUsed (messages demo_session) = [[js ''Bash''], [], []]
   \<and> length (toolsUsed (hd (messages demo_session))) \<le> 1"
proof -
  have "hd (messages demo_session) \<in> set (messages demo_session)"
    by (simp add: demo_session_def)
  from tools_used_at_most_one[OF demo_parse this] show ?thesis
    by (simp add: demo_session_def)
qed

subsection \<open>The project name\<close>

text \<open>The directory names that may follow the captured segment.\<close>

definition project_dirs :: "jsstring list" where
  "project_dirs = [js ''src'', js ''app'', js ''lib'', js ''node_modules'']"

lemma try_down_SomeD:
  "try_down f mn n = Some x \<Longrightarrow> \<exists>j. mn \<le> j \<and> j \<le> n \<and> f j = Some x"
proof (induction n)
  case 0
  then show ?case by (auto split: if_splits)
next
  case (Suc n)
  show ?case
  proof (cases "f (Suc n)")
    case None
    with Suc.prems have "try_down f mn n = Some x" by (auto split: if_splits)
    from Suc.IH[OF this] show ?thesis by (metis le_Suc_eq)
  next
    case (Some y)
    with Suc.prems have "\<not> Suc n < mn" "y = x" by (auto split: if_splits)
    with Some show ?thesis by (intro exI[of _ "Suc n"]) simp
  qed
qed

lemma try_down_top: "mn \<le> n \<Longrightarrow> f n = Some x \<Longrightarrow> try_down f mn n = Some x"
  by (cases n) auto

lemma re_search_SomeD:
  "re_search r i s = Some (p, e, cap) \<Longrightarrow>
     \<exists>pre rest. s = pre @ rest \<and> p = i + length pre \<and> match_at r p rest = Some (e, cap)"
proof (induction s arbitrary: i)
  case Nil
  then show ?case by (auto split: option.splits)
next
  case (Cons c cs)
  show ?case
  proof (cases "match_at r i (c # cs)")
    case None
    with Cons.prems have "re_search r (Suc i) cs = Some (p, e, cap)" by simp
    from Cons.IH[OF this] obtain pre rest where
      "cs = pre @ rest" "p = Suc i + length pre" "match_at r p rest = Some (e, cap)" by blast
    then show ?thesis by (intro exI[of _ "c # pre"] exI[of _ rest]) simp
  next
    case (Some a)
    with Cons.prems have "p = i" "a = (e, cap)" by (auto split: prod.splits)
    with Some show ?thesis by (intro exI[of _ "[]"] exI[of _ "c # cs"]) simp
  qed
qed

lemma re_search_complete:
  "match_at r (i + length pre) rest \<noteq> None \<Longrightarrow> re_search r i (pre @ rest) \<noteq> None"
proof (induction pre arbitrary: i)
  case Nil
  then show ?case by (cases rest) (auto split: option.splits)
next
  case (Cons c pre)
  from Cons.prems have "match_at r (Suc i + length pre) rest \<noteq> None" by simp
  from Cons.IH[OF this] show ?case by (auto split: option.splits)
qed

lemma rmatch_Lit_Some:
  "rmatch (Lit l) (i, rest, cap) k = Some x \<longleftrightarrow>
     (\<exists>rest'. rest = l @ rest' \<and> k (i + length l, rest', cap) = Some x)"
proof
  assume a: "rmatch (Lit l) (i, rest, cap) k = Some x"
  then have t: "take (length l) rest = l" and k: "k (i + length l, drop (length l) rest, cap) = Some x"
    by (auto split: if_splits)
  from t have "rest = l @ drop (length l) rest"
    by (metis append_take_drop_id)
  with k show "\<exists>rest'. rest = l @ rest' \<and> k (i + length l, rest', cap) = Some x" by blast
next
  assume "\<exists>rest'. rest = l @ rest' \<and> k (i + length l, rest', cap) = Some x"
  then show "rmatch (Lit l) (i, rest, cap) k = Some x" by auto
qed

lemma rmatch_Rep_SomeD:
  assumes "rmatch (Rep p mn None) (i, rest, cap) k = Some x"
  shows "\<exists>j. mn \<le> j \<and> j \<le> length (takeWhile p rest) \<and> k (i + j, drop j rest, cap) = Some x"
  using try_down_SomeD[of "\<lambda>j. k (i + j, drop j rest, cap)" mn "length (takeWhile p rest)" x] assms
  by (simp add: Let_def)

lemma rmatch_Rep_top:
  assumes "mn \<le> length (takeWhile p rest)"
    and "k (i + length (takeWhile p rest), dropWhile p rest, cap) = Some x"
  shows "rmatch (Rep p mn None) (i, rest, cap) k = Some x"
proof -
  have "drop (length (takeWhile p rest)) rest = dropWhile p rest"
    by (simp add: dropWhile_eq_drop)
  with assms show ?thesis
    by (simp add: Let_def try_down_top)
qed

text \<open>The final continuation of \<open>match_at\<close>.\<close>

definition done_k :: "mstate \<Rightarrow> (nat \<times> jsstring option) option" where
  "done_k = (\<lambda>(e, rest', cap). Some (e, cap))"

text \<open>The alternative \<open>(?:src|app|lib|node_modules)\<close> of the pattern.\<close>

definition dir_alt :: re where
  "dir_alt = Alt (Lit (js ''src'')) (Alt (Lit (js ''app'')) (Alt (Lit (js ''lib''))
         (Lit (js ''node_modules''))))"

lemma dir_alt_SomeD:
  assumes "rmatch dir_alt (i, rest, cap) done_k = Some (e, cap')"
  shows "\<exists>alt suf. alt \<in> set project_dirs \<and> rest = alt @ suf \<and> cap' = cap"
proof -
  from assms have
    "rmatch (Lit (js ''src'')) (i, rest, cap) done_k = Some (e, cap')
     \<or> rmatch (Lit (js ''app'')) (i, rest, cap) done_k = Some (e, cap')
     \<or> rmatch (Lit (js ''lib'')) (i, rest, cap) done_k = Some (e, cap')
     \<or> rmatch (Lit (js ''node_modules'')) (i, rest, cap) done_k = Some (e, cap')"
    unfolding dir_alt_def by (auto split: option.splits simp del: rmatch.simps(4))
  then show ?thesis
    unfolding rmatch_Lit_Some by (auto simp: project_dirs_def done_k_def)
qed

lemma dir_alt_complete:
  assumes "alt \<in> set project_dirs"
  shows "rmatch dir_alt (i, alt @ suf, cap) done_k \<noteq> None"
proof -
  have "rmatch (Lit alt) (i, alt @ suf, cap) done_k \<noteq> None"
    by (simp add: done_k_def)
  with assms show ?thesis
    unfolding dir_alt_def project_dirs_def
    by (auto split: option.splits simp del: rmatch.simps(4))
qed

lemma projectPattern_alt:
  "projectPattern =
     Seq (Lit (js ''/'')) (Seq (Cap (Rep (\<lambda>c. c \<noteq> 0x2F) 1 None)) (Seq (Lit (js ''/'')) dir_alt))"
  by (simp add: projectPattern_def dir_alt_def)

lemma match_at_project_SomeD:
  assumes "match_at projectPattern i rest = Some (e, cap)"
  shows "\<exists>seg alt suf. rest = js ''/'' @ seg @ js ''/'' @ alt @ suf \<and> seg \<noteq> []
           \<and> 0x2F \<notin> set seg \<and> alt \<in> set project_dirs \<and> cap = Some seg"
proof -
  let ?R = "Rep (\<lambda>c. c \<noteq> (0x2F::jschar)) 1 None"
  let ?Y = "Seq (Lit (js ''/'')) dir_alt"
  have fold: "(\<lambda>(e, rest', cap). Some (e, cap)) = done_k"
    by (simp add: done_k_def)
  from assms have "rmatch (Lit (js ''/'')) (i, rest, None)
      (\<lambda>st'. rmatch (Seq (Cap ?R) ?Y) st' done_k) = Some (e, cap)"
    unfolding match_at_def projectPattern_alt fold by (simp only: rmatch.simps)
  then obtain r1 where rest: "rest = js ''/'' @ r1"
    and 2: "rmatch (Seq (Cap ?R) ?Y) (i + length (js ''/''), r1, None) done_k = Some (e, cap)"
    unfolding rmatch_Lit_Some by blast
  from 2 have "rmatch ?R (i + length (js ''/''), r1, None)
      (\<lambda>(i', rest', cap'). rmatch ?Y (i', rest', Some (take (i' - (i + length (js ''/''))) r1)) done_k)
        = Some (e, cap)"
    by (simp only: rmatch.simps)
  from rmatch_Rep_SomeD[OF this] obtain j where j: "1 \<le> j" "j \<le> length (takeWhile (\<lambda>c. c \<noteq> 0x2F) r1)"
    and 3: "rmatch ?Y (i + length (js ''/'') + j, drop j r1, Some (take j r1)) done_k = Some (e, cap)"
    by (auto simp del: rmatch.simps)
  from 3 have "rmatch (Lit (js ''/'')) (i + length (js ''/'') + j, drop j r1, Some (take j r1))
      (\<lambda>st'. rmatch dir_alt st' done_k) = Some (e, cap)"
    by (simp only: rmatch.simps)
  then obtain r2 where r2: "drop j r1 = js ''/'' @ r2"
    and 4: "rmatch dir_alt (i + length (js ''/'') + j + length (js ''/''), r2, Some (take j r1)) done_k
              = Some (e, cap)"
    unfolding rmatch_Lit_Some by blast
  from dir_alt_SomeD[OF 4] obtain alt suf where
    alt: "alt \<in> set project_dirs" "r2 = alt @ suf" "cap = Some (take j r1)"
    by blast
  have "r1 = take j r1 @ drop j r1" by simp
  with r2 alt(2) rest have "rest = js ''/'' @ take j r1 @ js ''/'' @ alt @ suf" by simp
  moreover have "take j r1 \<noteq> []"
    using j length_takeWhile_le[of "\<lambda>c. c \<noteq> 0x2F" r1] by auto
  moreover have "0x2F \<notin> set (take j r1)"
  proof -
    have "take j r1 = take j (takeWhile (\<lambda>c. c \<noteq> 0x2F) r1)"
      using j(2) by (metis append_eq_conv_conj takeWhile_dropWhile_id take_append
          diff_is_0_eq' take_0 append_Nil2)
    then have "set (take j r1) \<subseteq> set (takeWhile (\<lambda>c. c \<noteq> 0x2F) r1)"
      by (metis set_take_subset)
    then show ?thesis by (auto dest: set_takeWhileD)
  qed
  ultimately show ?thesis using alt by blast
qed

lemma match_at_project_complete:
  assumes "seg \<noteq> []" "0x2F \<notin> set seg" "alt \<in> set project_dirs"
  shows "match_at projectPattern i (js ''/'' @ seg @ js ''/'' @ alt @ suf) \<noteq> None"
proof -
  let ?ne = "\<lambda>c. c \<noteq> (0x2F::jschar)"
  let ?R = "Rep ?ne 1 None"
  let ?Y = "Seq (Lit (js ''/'')) dir_alt"
  let ?r1 = "seg @ js ''/'' @ alt @ suf"
  have fold: "(\<lambda>(e, rest', cap). Some (e, cap)) = done_k"
    by (simp add: done_k_def)
  have ne: "\<And>x. x \<in> set seg \<Longrightarrow> ?ne x"
    using assms(2) by auto
  have tw: "takeWhile ?ne ?r1 = seg" and dw: "dropWhile ?ne ?r1 = js ''/'' @ alt @ suf"
    by (simp_all add: takeWhile_append2[of seg ?ne, OF ne] dropWhile_append2[of seg ?ne, OF ne]
        js_def)
  obtain y where y: "rmatch dir_alt (i + length (js ''/'') + length seg + length (js ''/''), alt @ suf,
        Some (take (length seg) ?r1)) done_k = Some y"
    using dir_alt_complete[OF assms(3)] by blast
  have "rmatch (Lit (js ''/'')) (i + length (js ''/'') + length seg, js ''/'' @ alt @ suf,
          Some (take (length seg) ?r1)) (\<lambda>st'. rmatch dir_alt st' done_k) = Some y"
    unfolding rmatch_Lit_Some using y by blast
  then have "rmatch ?Y (i + length (js ''/'') + length seg, js ''/'' @ alt @ suf,
          Some (take (length seg) ?r1)) done_k = Some y"
    by (simp only: rmatch.simps)
  then have "rmatch ?R (i + length (js ''/''), ?r1, None)
      (\<lambda>(i', rest', cap'). rmatch ?Y (i', rest', Some (take (i' - (i + length (js ''/''))) ?r1)) done_k)
        = Some y"
    using assms(1) by (intro rmatch_Rep_top) (simp_all add: tw dw Suc_le_eq)
  then have "rmatch (Seq (Cap ?R) ?Y) (i + length (js ''/''), ?r1, None) done_k = Some y"
    by (simp only: rmatch.simps)
  then have "rmatch (Lit (js ''/'')) (i, js ''/'' @ ?r1, None)
      (\<lambda>st'. rmatch (Seq (Cap ?R) ?Y) st' done_k) = Some y"
    unfolding rmatch_Lit_Some by blast
  then have "match_at projectPattern i (js ''/'' @ ?r1) = Some y"
    unfolding match_at_def projectPattern_alt fold by (simp only: rmatch.simps)
  then show ?thesis by simp
qed

text \<open>
  The inference as claim C5 words it: only the first chunk with a reference is looked at.
\<close>

definition firstChunkOnly :: "ParsedMessage list \<Rightarrow> jsstring option" where
  "firstChunkOnly msgs =
     (case List.find (\<lambda>m. filesMentioned m \<noteq> []) msgs of
        None \<Rightarrow> None
      | Some m \<Rightarrow>
          (case re_match1 projectPattern (hd (filesMentioned m)) of
             None \<Rightarrow> None
           | Some name \<Rightarrow> name))"

text \<open>A chunk whose first reference matches the pattern of the project name.\<close>

definition firstRefMatches :: "ParsedMessage \<Rightarrow> bool" where
  "firstRefMatches m \<longleftrightarrow>
     filesMentioned m \<noteq> [] \<and> re_match1 projectPattern (hd (filesMentioned m)) \<noteq> None"

lemma inferProjectName_find:
  "inferProjectName msgs =
     (case List.find firstRefMatches msgs of
        None \<Rightarrow> None
      | Some m \<Rightarrow> the (re_match1 projectPattern (hd (filesMentioned m))))"
  by (induction msgs) (auto simp: firstRefMatches_def split: list.splits option.splits)

lemma re_match1_project_SomeD:
  assumes "re_match1 projectPattern p = Some cap"
  shows "\<exists>seg pre alt suf. cap = Some seg \<and> p = pre @ js ''/'' @ seg @ js ''/'' @ alt @ suf
           \<and> seg \<noteq> [] \<and> 0x2F \<notin> set seg \<and> alt \<in> set project_dirs"
proof -
  from assms obtain pos e where "re_search projectPattern 0 p = Some (pos, e, cap)"
    by (auto simp: re_match1_def split: option.splits)
  from re_search_SomeD[OF this] obtain pre rest where
    p: "p = pre @ rest" and m: "match_at projectPattern pos rest = Some (e, cap)"
    by blast
  from match_at_project_SomeD[OF m] p show ?thesis by blast
qed

lemma re_match1_project_complete:
  assumes "seg \<noteq> []" "0x2F \<notin> set seg" "alt \<in> set project_dirs"
  shows "re_match1 projectPattern (pre @ js ''/'' @ seg @ js ''/'' @ alt @ suf) \<noteq> None"
proof -
  have "re_search projectPattern 0 (pre @ (js ''/'' @ seg @ js ''/'' @ alt @ suf)) \<noteq> None"
    by (rule re_search_complete) (rule match_at_project_complete[OF assms])
  then show ?thesis
    by (auto simp: re_match1_def split: option.splits)
qed

lemma parse_projectName:
  "parseSessionFile fs filePath = Some session \<Longrightarrow>
     projectName session = inferProjectName (messages session)"
  by (auto simp: parseSessionFile_def Let_def split: option.splits if_splits prod.splits)

text \<open>
  Claim C5, as stated, fails: in the example file the first chunk with a reference mentions
  \<open>./notes/todo\<close>, which does not match, and the project name is still found, from the next
  chunk.
\<close>

theorem project_name_counterexample:
  "parseSessionFile demo_fs demo_path = Some demo_session
   \<and> projectName demo_session = Some (js ''myapp'')
   \<and> firstChunkOnly (messages demo_session) = None"
  by (simp add: demo_parse demo_session_def firstChunkOnly_def project_rel)

text \<open>
  Claim C5, amended. Project-name inference scans the chunks in emission order and tests the
  first reference of each chunk whose reference set is non-empty; the first chunk whose first
  reference matches gives the project name, and a chunk whose first reference does not match is
  passed over. A match captures a non-empty segment without \<open>/\<close> that stands between a \<open>/\<close> and
  one of \<open>/src\<close>, \<open>/app\<close>, \<open>/lib\<close>, \<open>/node_modules\<close>, and every reference with such a segment
  matches; \<open>/home/alice/myapp/src/index.ts\<close> yields \<open>myapp\<close>. The name is absent when no chunk's
  first reference matches.
\<close>

theorem project_name_first_match:
  "inferProjectName msgs =
     (case List.find firstRefMatches msgs of
        None \<Rightarrow> None
      | Some m \<Rightarrow> the (re_match1 projectPattern (hd (filesMentioned m))))
   \<and> (parseSessionFile fs filePath = Some session \<longrightarrow>
        projectName session = inferProjectName (messages session))
   \<and> (re_match1 projectPattern p = Some cap \<longrightarrow>
        (\<exists>seg pre alt suf. cap = Some seg \<and> p = pre @ js ''/'' @ seg @ js ''/'' @ alt @ suf
           \<and> seg \<noteq> [] \<and> 0x2F \<notin> set seg \<and> alt \<in> set project_dirs))
   \<and> (seg' \<noteq> [] \<and> 0x2F \<notin> set seg' \<and> alt' \<in> set project_dirs \<longrightarrow>
        re_match1 projectPattern (pre' @ js ''/'' @ seg' @ js ''/'' @ alt' @ suf') \<noteq> None)
   \<and> re_match1 projectPattern (js ''/home/alice/myapp/src/index.ts'') = Some (Some (js ''myapp''))"
  using inferProjectName_find parse_projectName re_match1_project_SomeD
    re_match1_project_complete project_abs
  by (intro conjI impI) (blast+)

text \<open>C5 on the example file, and on a reference with the segment \<open>tool\<close> before \<open>/lib\<close>.\<close>

theorem project_name_first_match_witness:
  "projectName demo_session = Some (js ''myapp'')
   \<and> List.find firstRefMatches (messages demo_session) = Some (messages demo_session ! 2)
   \<and> re_match1 projectPattern (js ''/home/bob'' @ js ''/'' @ js ''tool'' @ js ''/'' @ js ''lib'' @ js ''/x.ts'')
        \<noteq> None"
proof -
  have j: "js ''tool'' \<noteq> [] \<and> 0x2F \<notin> set (js ''tool'') \<and> js ''lib'' \<in> set project_dirs"
    by (simp add: js_def project_dirs_def)
  have f: "List.find firstRefMatches (messages demo_session) = Some (messages demo_session ! 2)"
    by (simp add: demo_session_def firstRefMatches_def project_rel project_abs)
  note t = project_name_first_match[of "messages demo_session" demo_fs demo_path demo_session
      "js ''/home/alice/myapp/src/index.ts''" "Some (js ''myapp'')" "js ''tool''" "js ''lib''"
      "js ''/home/bob''" "js ''/x.ts''"]
  from t demo_parse have "projectName demo_session = inferProjectName (messages demo_session)"
    by blast
  moreover from t have "inferProjectName (messages demo_session) =
     (case List.find firstRefMatches (messages demo_session) of
        None \<Rightarrow> None
      | Some m \<Rightarrow> the (re_match1 projectPattern (hd (filesMentioned m))))"
    by blast
  moreover from t j have "re_match1 projectPattern
      (js ''/home/bob'' @ js ''/'' @ js ''tool'' @ js ''/'' @ js ''lib'' @ js ''/x.ts'') \<noteq> None"
    by blast
  ultimately show ?thesis
    using f by (simp add: demo_session_def project_abs)
qed

section \<open>Properties of the embedding batcher\<close>

lemma js_slice_window:
  "js_slice xs (int k) (int k + int d) = take d (drop k xs)"
  by (auto simp: js_slice_def Let_def min_def)

lemma fold_js_set:
  assumes "j0 + length batch + k \<le> length results"
    and "\<forall>t\<in>set batch. embedOne t \<noteq> None"
  shows "fold (\<lambda>(j, t) r. js_set r (int k + int j) (the (embedOne t))) (enumerate j0 batch) results
           = take (k + j0) results @ map embedOne batch @ drop (k + j0 + length batch) results"
  using assms
proof (induction batch arbitrary: j0 results)
  case Nil
  then show ?case by simp
next
  case (Cons t batch)
  from Cons.prems(2) obtain v where v: "embedOne t = Some v" by auto
  let ?r = "js_set results (int k + int j0) v"
  have r: "?r = results[k + j0 := Some v]"
    using Cons.prems(1) by (simp add: js_set_def nat_add_distrib)
  have "fold (\<lambda>(j, t) r. js_set r (int k + int j) (the (embedOne t))) (enumerate (Suc j0) batch) ?r
           = take (k + Suc j0) ?r @ map embedOne batch @ drop (k + Suc j0 + length batch) ?r"
    using Cons.prems by (intro Cons.IH) (simp_all add: r)
  moreover have "take (k + Suc j0) ?r = take (k + j0) results @ [Some v]"
    using Cons.prems(1) by (simp add: r take_Suc_conv_app_nth)
  moreover have "drop (k + Suc j0 + length batch) ?r = drop (k + j0 + length (t # batch)) results"
    by (simp add: r)
  ultimately show ?case by (simp add: v)
qed

lemma run_batch_ok:
  assumes "k + length batch \<le> length results"
    and "\<forall>t\<in>set batch. embedOne t \<noteq> None"
  shows "run_batch embedOne batch (int k) results
           = Inr (take k results @ map embedOne batch @ drop (k + length batch) results)"
  using fold_js_set[of 0 batch k results embedOne] assms
  by (simp add: run_batch_def list_ex_iff)

lemma run_batch_fail:
  "\<exists>t\<in>set batch. embedOne t = None \<Longrightarrow> run_batch embedOne batch i results = Inl EmbedError"
  by (simp add: run_batch_def list_ex_iff)

lemma embed_loop_result:
  assumes "0 < d" and "length results = length texts"
  shows "embed_loop embedOne texts (int d) (int k) results =
           Some (if \<forall>t\<in>set (drop k texts). embedOne t \<noteq> None
                 then Inr (take k results @ map embedOne (drop k texts))
                 else Inl EmbedError)"
  using assms(2)
proof (induction "length texts - k" arbitrary: k results rule: less_induct)
  case less
  show ?case
  proof (cases "k < length texts")
    case False
    then show ?thesis
      using less.prems by (subst embed_loop.simps) simp
  next
    case True
    let ?batch = "take d (drop k texts)"
    have split: "drop k texts = ?batch @ drop (k + d) texts"
      by (metis append_take_drop_id drop_drop add.commute)
    show ?thesis
    proof (cases "\<forall>t\<in>set ?batch. embedOne t \<noteq> None")
      case bad: False
      then have "\<not> (\<forall>t\<in>set (drop k texts). embedOne t \<noteq> None)"
        by (metis in_set_takeD)
      with bad True show ?thesis
        by (subst embed_loop.simps) (simp add: js_slice_window run_batch_fail)
    next
      case ok: True
      let ?r = "take k results @ map embedOne ?batch @ drop (k + length ?batch) results"
      have len: "k + length ?batch \<le> length results"
        using True less.prems by simp
      have rb: "run_batch embedOne ?batch (int k) results = Inr ?r"
        by (rule run_batch_ok[OF len ok])
      have lr: "length ?r = length texts"
        using True less.prems by (simp add: min_def)
      have "length texts - (k + d) < length texts - k"
        using True assms(1) by simp
      from less.hyps[OF this lr]
      have IH: "embed_loop embedOne texts (int d) (int (k + d)) ?r =
           Some (if \<forall>t\<in>set (drop (k + d) texts). embedOne t \<noteq> None
                 then Inr (take (k + d) ?r @ map embedOne (drop (k + d) texts))
                 else Inl EmbedError)" .
      have all: "(\<forall>t\<in>set (drop k texts). embedOne t \<noteq> None)
                   \<longleftrightarrow> (\<forall>t\<in>set (drop (k + d) texts). embedOne t \<noteq> None)"
        using ok by (subst split) auto
      have tk: "take (k + d) ?r @ map embedOne (drop (k + d) texts)
                  = take k results @ map embedOne (drop k texts)"
      proof (cases "k + d \<le> length texts")
        case le: True
        then have "length ?batch = d" by simp
        then have "take (k + d) ?r = take k results @ map embedOne ?batch"
          using less.prems True by (simp add: min_def)
        then show ?thesis
          by (subst (2) split) simp
      next
        case gt: False
        then have "drop (k + d) texts = []" and "?batch = drop k texts" by simp_all
        then show ?thesis
          using less.prems True lr by simp
      qed
      have step: "embed_loop embedOne texts (int d) (int k) results
                    = embed_loop embedOne texts (int d) (int (k + d)) ?r"
        using True by (subst embed_loop.simps) (simp add: js_slice_window rb)
      show ?thesis
        by (simp only: step IH all tk)
    qed
  qed
qed

text \<open>With a bound of zero the loop never advances: on a non-empty input the call never returns.\<close>

lemma embed_loop_zero_aux:
  assumes "embed_loop embedOne texts c i results = Some y"
  shows "\<not> (c = 0 \<and> i < int (length texts))"
proof (rule embed_loop.raw_induct[where
      P = "\<lambda>embedOne texts c i results y. \<not> (c = 0 \<and> i < int (length texts))", OF _ assms])
  fix loop :: "(jsstring \<Rightarrow> vector option) \<Rightarrow> jsstring list \<Rightarrow> int \<Rightarrow> int \<Rightarrow> vector option list
     \<Rightarrow> (error + vector option list) option"
  fix embedOne texts concurrency i results y
  assume IH: "\<And>e t c i r y. loop e t c i r = Some y \<Longrightarrow> \<not> (c = 0 \<and> i < int (length t))"
    and body: "(if i < int (length texts)
      then case run_batch embedOne (js_slice texts i (i + concurrency)) i results of
           Inl e \<Rightarrow> Some (Inl e)
           | Inr results' \<Rightarrow> loop embedOne texts concurrency (i + concurrency) results'
      else Some (Inr results)) = Some y"
  show "\<not> (concurrency = 0 \<and> i < int (length texts))"
  proof
    assume a: "concurrency = 0 \<and> i < int (length texts)"
    then have "js_slice texts i (i + concurrency) = []"
      by (auto simp: js_slice_def Let_def)
    with body a have "loop embedOne texts concurrency i results = Some y"
      by (simp add: run_batch_def)
    from IH[OF this] a show False by simp
  qed
qed

lemma embed_loop_zero_diverges:
  "i < int (length texts) \<Longrightarrow> embed_loop embedOne texts 0 i results = None"
  using embed_loop_zero_aux[of embedOne texts 0 i results] by (cases "embed_loop embedOne texts 0 i results") auto

lemma embedBatch_zero_diverges:
  "texts \<noteq> [] \<Longrightarrow> embedBatch embedOne texts (Some 0) = None"
  by (simp add: embedBatch_def embed_loop_zero_diverges)

text \<open>An embedding service for the examples: it rejects the text \<open>fail\<close>.\<close>

definition demo_embed :: "jsstring \<Rightarrow> vector option" where
  "demo_embed t = (if t = js ''fail'' then None else Some [real (length t)])"

text \<open>
  Claim C7. For every input list of texts, under the default concurrency bound or any positive
  one, the batcher returns: when every request succeeds, a list of the same length whose vector
  at each index is the embedding of the text at that index; when any single request fails, the
  whole call fails and no partial result is returned.
\<close>

theorem embedBatch_same_length_same_order:
  assumes "case concurrency of None \<Rightarrow> True | Some c \<Rightarrow> 0 < c"
  shows "embedBatch embedOne texts concurrency =
           Some (if \<forall>t\<in>set texts. embedOne t \<noteq> None then Inr (map embedOne texts)
                 else Inl EmbedError)
       \<and> length (map embedOne texts) = length texts
       \<and> (\<forall>i<length texts. map embedOne texts ! i = embedOne (texts ! i))"
proof -
  obtain d where d: "0 < d" "(case concurrency of None \<Rightarrow> 5 | Some c \<Rightarrow> c) = int d"
    using assms by (cases concurrency) (auto intro: that[of 5] dest: zero_less_imp_eq_int)
  show ?thesis
    using embed_loop_result[of d "replicate (length texts) None" texts embedOne 0, OF d(1)]
    by (simp add: embedBatch_def d(2))
qed

text \<open>C7 on three texts with bound 2, and on a list with a failing text under the default bound.\<close>

theorem embedBatch_same_length_same_order_witness:
  "embedBatch demo_embed [js ''a'', js ''bb'', js ''ccc''] (Some 2)
     = Some (Inr [Some [1], Some [2], Some [3]])
   \<and> embedBatch demo_embed [js ''a'', js ''fail'', js ''ccc''] None = Some (Inl EmbedError)"
proof -
  have p: "case Some (2::int) of None \<Rightarrow> True | Some c \<Rightarrow> 0 < c"
    and q: "case (None::int option) of None \<Rightarrow> True | Some c \<Rightarrow> 0 < c"
    by simp_all
  from embedBatch_same_length_same_order[OF p, of demo_embed "[js ''a'', js ''bb'', js ''ccc'']"]
    embedBatch_same_length_same_order[OF q, of demo_embed "[js ''a'', js ''fail'', js ''ccc'']"]
  show ?thesis
    by (simp add: demo_embed_def js_def)
qed

section \<open>Properties of the store and of ingestion\<close>

text \<open>With the default bound the batcher always returns.\<close>

lemma embedBatch_default:
  "embedBatch embedOne texts None =
     Some (if \<forall>t\<in>set texts. embedOne t \<noteq> None then Inr (map embedOne texts) else Inl EmbedError)"
  using embed_loop_result[of 5 "replicate (length texts) None" texts embedOne 0]
  by (simp add: embedBatch_def)

lemma set_embeddings_keys_aux:
  "map chunk_key (map (\<lambda>(i, c). c\<lparr>c_embedding := f i\<rparr>) (enumerate n cs)) = map chunk_key cs"
  by (induction cs arbitrary: n) (simp_all add: chunk_key_def)

lemma set_embeddings_keys [simp]:
  "map chunk_key (set_embeddings cs es) = map chunk_key cs"
  unfolding set_embeddings_def by (rule set_embeddings_keys_aux)

lemma length_set_embeddings [simp]: "length (set_embeddings cs es) = length cs"
  by (simp add: set_embeddings_def)

lemma prepare_chunk_keys:
  "map chunk_key (map (prepare_chunk i) msgs) = map (\<lambda>m. (i, index m)) msgs"
  by (simp add: prepare_chunk_def chunk_key_def)

subsection \<open>What the statements do to the tables\<close>

lemma upsert_chunk_sessions [simp]: "sessions (upsert_chunk c st) = sessions st"
  by (simp add: upsert_chunk_def)

lemma fold_upsert_chunk_sessions [simp]: "sessions (fold upsert_chunk cs st) = sessions st"
  by (induction cs arbitrary: st) simp_all

lemma update_chunk_key [simp]: "chunk_key (update_chunk c r) = chunk_key r"
  by (simp add: update_chunk_def chunk_key_def)

lemma new_chunk_row_key [simp]: "chunk_key (new_chunk_row c i) = chunk_key c"
  by (simp add: new_chunk_row_def chunk_key_def)

lemma upsert_chunk_keys:
  "map chunk_key (chunks (upsert_chunk c st)) =
     (if chunk_key c \<in> chunk_key ` set (chunks st) then map chunk_key (chunks st)
      else map chunk_key (chunks st) @ [chunk_key c])"
proof -
  have "map (\<lambda>r. chunk_key (if chunk_key r = chunk_key c then update_chunk c r else r)) rs
          = map chunk_key rs" for rs :: "ChunkRow list"
    by (induction rs) auto
  moreover have "list_ex (\<lambda>r. chunk_key r = chunk_key c) (chunks st)
                   \<longleftrightarrow> chunk_key c \<in> chunk_key ` set (chunks st)"
    by (auto simp: list_ex_iff intro: rev_image_eqI)
  ultimately show ?thesis
    by (simp add: upsert_chunk_def comp_def)
qed

lemma upsert_chunk_keyset:
  "chunk_key ` set (chunks (upsert_chunk c st)) = insert (chunk_key c) (chunk_key ` set (chunks st))"
proof -
  have "set (map chunk_key (chunks (upsert_chunk c st)))
          = insert (chunk_key c) (chunk_key ` set (chunks st))"
    unfolding upsert_chunk_keys by auto
  then show ?thesis by simp
qed

lemma fold_upsert_chunk_present:
  "chunk_key ` set cs \<subseteq> chunk_key ` set (chunks st) \<Longrightarrow>
     map chunk_key (chunks (fold upsert_chunk cs st)) = map chunk_key (chunks st)"
proof (induction cs arbitrary: st)
  case Nil
  then show ?case by simp
next
  case (Cons c cs)
  from Cons.prems have k: "map chunk_key (chunks (upsert_chunk c st)) = map chunk_key (chunks st)"
    by (simp add: upsert_chunk_keys)
  from Cons.prems have "chunk_key ` set cs \<subseteq> chunk_key ` set (chunks (upsert_chunk c st))"
    by (simp add: upsert_chunk_keyset subset_insertI2)
  from Cons.IH[OF this] k show ?case by simp
qed

lemma fold_upsert_chunk_keyset:
  "chunk_key ` set (chunks (fold upsert_chunk cs st))
     = chunk_key ` set cs \<union> chunk_key ` set (chunks st)"
  by (induction cs arbitrary: st) (simp_all add: upsert_chunk_keyset)

lemma insertChunks_sessions:
  "insertChunks pg st cs = Inr st' \<Longrightarrow> sessions st' = sessions st"
  by (auto simp: insertChunks_def split: if_splits)

lemma insertChunks_covers:
  "insertChunks pg st cs = Inr st' \<Longrightarrow> chunk_key ` set cs \<subseteq> chunk_key ` set (chunks st')"
  by (auto simp: insertChunks_def fold_upsert_chunk_keyset split: if_splits)

lemma insertChunks_present:
  "insertChunks pg st cs = Inr st' \<Longrightarrow> chunk_key ` set cs \<subseteq> chunk_key ` set (chunks st) \<Longrightarrow>
     map chunk_key (chunks st') = map chunk_key (chunks st)"
  using fold_upsert_chunk_present[of cs st]
  by (auto simp: insertChunks_def split: if_splits)

lemma upsert_session_row_chunks [simp]: "chunks (fst (upsert_session_row st s)) = chunks st"
  by (simp add: upsert_session_row_def split: option.splits)

lemma update_session_id [simp]:
  "session_id (update_session s now r) = session_id r" "row_id (update_session s now r) = row_id r"
  by (simp_all add: update_session_def)

lemma map_update_session_ids:
  "map session_id (map (\<lambda>r. if session_id r = k then update_session s now r else r) rs)
     = map session_id rs"
  "map row_id (map (\<lambda>r. if session_id r = k then update_session s now r else r) rs)
     = map row_id rs"
  by (induction rs) auto

lemma find_Some_mem: "List.find P xs = Some x \<Longrightarrow> x \<in> set xs \<and> P x"
  by (induction xs) (auto split: if_splits)

lemma upsert_session_row_ids:
  "map session_id (sessions (fst (upsert_session_row st s))) =
     (if session_id s \<in> session_id ` set (sessions st) then map session_id (sessions st)
      else map session_id (sessions st) @ [session_id s])"
proof (cases "List.find (\<lambda>r. session_id r = session_id s) (sessions st)")
  case None
  then have "session_id s \<notin> session_id ` set (sessions st)"
    by (auto simp: find_None_iff)
  with None show ?thesis
    by (simp add: upsert_session_row_def new_session_row_def)
next
  case (Some r)
  then have "session_id s \<in> session_id ` set (sessions st)"
    by (auto dest!: find_Some_mem intro: rev_image_eqI)
  with Some show ?thesis
    by (simp add: upsert_session_row_def map_update_session_ids comp_def)
qed

lemma upsert_session_row_keeps_ids:
  "session_id s \<in> session_id ` set (sessions st) \<Longrightarrow>
     map row_id (sessions (fst (upsert_session_row st s))) = map row_id (sessions st)"
  by (auto simp: upsert_session_row_def map_update_session_ids comp_def find_None_iff
      split: option.splits)

text \<open>The identifier that \<open>upsert_session_row\<close> returns is the one of a row with the session's name.\<close>

lemma upsert_session_row_returns:
  "\<exists>r\<in>set (sessions (fst (upsert_session_row st s))).
      session_id r = session_id s \<and> row_id r = snd (upsert_session_row st s)"
proof (cases "List.find (\<lambda>r. session_id r = session_id s) (sessions st)")
  case None
  then show ?thesis
    by (simp add: upsert_session_row_def new_session_row_def)
next
  case (Some r)
  then have r: "r \<in> set (sessions st)" "session_id r = session_id s"
    by (auto dest!: find_Some_mem)
  then have "update_session s (clock st) r \<in> set (sessions (fst (upsert_session_row st s)))"
    using Some by (force simp: upsert_session_row_def)
  with r Some show ?thesis
    by (intro bexI[of _ "update_session s (clock st) r"]) (simp_all add: upsert_session_row_def)
qed

lemma distinct_session_row_id:
  assumes "distinct (map session_id rs)"
    and "r \<in> set rs" "r' \<in> set rs" "session_id r = session_id r'"
  shows "r = r'"
  using assms by (meson distinct_map inj_onD)

lemma distinct_filter_one:
  "distinct (map f xs) \<Longrightarrow> k \<in> f ` set xs \<Longrightarrow> length (filter (\<lambda>x. f x = k) xs) = 1"
proof (induction xs)
  case Nil
  then show ?case by simp
next
  case (Cons x xs)
  show ?case
  proof (cases "f x = k")
    case True
    with Cons.prems have "filter (\<lambda>x. f x = k) xs = []"
      by (auto simp: filter_empty_conv image_iff)
    with True show ?thesis by simp
  next
    case False
    with Cons show ?thesis by auto
  qed
qed

lemma upsert_session_row_distinct:
  "distinct (map session_id (sessions st)) \<Longrightarrow>
     distinct (map session_id (sessions (fst (upsert_session_row st s))))"
  by (simp add: upsert_session_row_ids)

lemma upsert_session_row_again:
  assumes d: "distinct (map session_id (sessions st))"
    and r: "r \<in> set (sessions st)" "session_id r = session_id s"
  shows "snd (upsert_session_row st s) = row_id r"
proof -
  from r obtain r' where f: "List.find (\<lambda>r. session_id r = session_id s) (sessions st) = Some r'"
    by (cases "List.find (\<lambda>r. session_id r = session_id s) (sessions st)")
      (auto simp: find_None_iff)
  from find_Some_mem[OF f] have "r' \<in> set (sessions st)" "session_id r' = session_id s"
    by simp_all
  with d r have "r' = r"
    by (intro distinct_session_row_id[of "sessions st"]) simp_all
  with f show ?thesis by (simp add: upsert_session_row_def)
qed

subsection \<open>One iteration on a parsed file\<close>

lemma parse_Some_nonempty:
  "parseSessionFile fs file = Some session \<Longrightarrow> messages session \<noteq> []"
  by (auto simp: parseSessionFile_def Let_def split: option.splits if_splits prod.splits)

lemma ingest_file_rejected:
  assumes "parseSessionFile fs file = Some session"
    and "\<not> session_ok pg (session_fields session)"
  shows "ingest_file fs pg embedOne embedFlag st file = Some (st\<lparr>skipped := skipped st + 1\<rparr>)"
  using assms parse_Some_nonempty[OF assms(1)] by (simp add: ingest_file_def upsertSession_def)

lemma ingest_file_parsed:
  assumes "parseSessionFile fs file = Some session"
    and "session_ok pg (session_fields session)"
  shows "ingest_file fs pg embedOne embedFlag st file =
     (let db1 = fst (upsert_session_row (db st) (session_fields session));
          sessionDbId = snd (upsert_session_row (db st) (session_fields session));
          cs = map (prepare_chunk sessionDbId) (messages session)
      in if embedFlag \<and> (\<exists>m\<in>set (messages session). embedOne (content m) = None)
         then Some (st\<lparr>db := db1, skipped := skipped st + 1\<rparr>)
         else (case insertChunks pg db1
                      (if embedFlag then set_embeddings cs (map embedOne (map c_content cs)) else cs) of
                 Inl e \<Rightarrow> Some (st\<lparr>db := db1, skipped := skipped st + 1\<rparr>)
               | Inr db2 \<Rightarrow>
                   Some (st\<lparr>db := db2, processed := processed st + 1,
                            totalChunks := totalChunks st + length (messages session)\<rparr>)))"
proof -
  obtain db1 sessionDbId where
    u: "upsert_session_row (db st) (session_fields session) = (db1, sessionDbId)"
    by (cases "upsert_session_row (db st) (session_fields session)")
  have u': "upsertSession pg (db st) (session_fields session) = Inr (db1, sessionDbId)"
    using assms(2) u by (simp add: upsertSession_def)
  let ?cs = "map (prepare_chunk sessionDbId) (messages session)"
  have c: "map c_content ?cs = map content (messages session)"
    by (simp add: prepare_chunk_def comp_def)
  have ne: "messages session \<noteq> []"
    by (rule parse_Some_nonempty[OF assms(1)])
  show ?thesis
  proof (cases embedFlag)
    case False
    then show ?thesis
      using ne by (simp add: ingest_file_def assms(1) u u' Let_def split: sum.splits)
  next
    case True
    show ?thesis
    proof (cases "\<exists>m\<in>set (messages session). embedOne (content m) = None")
      case fail: True
      then have "embedBatch embedOne (map c_content ?cs) None = Some (Inl EmbedError)"
        unfolding embedBatch_default c by auto
      with fail True ne show ?thesis
        by (simp add: ingest_file_def assms(1) u u' Let_def)
    next
      case ok: False
      then have "embedBatch embedOne (map c_content ?cs) None
                   = Some (Inr (map embedOne (map c_content ?cs)))"
        unfolding embedBatch_default c by auto
      with ok True ne show ?thesis
        by (auto simp: ingest_file_def assms(1) u u' Let_def split: sum.splits)
    qed
  qed
qed


subsection \<open>Example runs\<close>

definition run0 :: run where
  "run0 = \<lparr>db = empty_store, processed = 0, skipped = 0, totalChunks = 0\<rparr>"


definition demo_embed768 :: "jsstring \<Rightarrow> vector option" where
  "demo_embed768 t = Some (replicate 768 (real (length t)))"

text \<open>
  A database that reads the two dates of the example file and no other string of the examples,
  stores a text without NUL character, takes the metadata \<open>{}\<close>, and indexes short texts.
\<close>

definition demo_pg :: PgInput where
  "demo_pg =
     \<lparr>timestamptz_ok = (\<lambda>d. d \<in> set [Date (js ''2026-01-01T00:00:00Z''),
                                        Date (js ''2026-01-01T00:00:05Z'')]),
      text_ok = (\<lambda>s. 0 \<notin> set s),
      jsonb_ok = (\<lambda>s. s = js ''{}''),
      session_id_index_ok = (\<lambda>s. length s \<le> 255),
      content_index_ok = (\<lambda>s. length s \<le> 1000)\<rparr>"

text \<open>The store after the example file has been ingested into the empty store.\<close>

definition demo_db1 :: store where
  "demo_db1 =
     \<lparr>sessions = [new_session_row (session_fields demo_session) 0 0],
      chunks = map (\<lambda>(i, m). new_chunk_row
                  ((prepare_chunk 0 m)\<lparr>c_embedding := demo_embed768 (content m)\<rparr>) (Suc i))
                 (enumerate 0 (messages demo_session)),
      next_uuid = 4,
      clock = 0\<rparr>"

lemmas pg_eval = session_ok_def chunk_ok_def null_or_def int4_ok_def numeric_10_4_ok_def
  max_parameters_def demo_pg_def

lemma demo_session_ok: "session_ok demo_pg (session_fields demo_session)"
  by (simp add: pg_eval session_fields_def demo_session_def demo_path_def js_def)


lemma demo_ingest_ok:
  "ingest_file demo_fs demo_pg demo_embed768 True run0 demo_path =
     Some \<lparr>db = demo_db1, processed = 1, skipped = 0, totalChunks = 3\<rparr>"
proof -
  have "\<not> (\<exists>m\<in>set (messages demo_session). demo_embed768 (content m) = None)"
    by (simp add: demo_embed768_def)
  then show ?thesis
    unfolding ingest_file_parsed[OF demo_parse demo_session_ok]
    by (simp add: run0_def empty_store_def upsert_session_row_def demo_embed768_def Let_def
      demo_session_def demo_db1_def insertChunks_def statement_ok_def set_embeddings_def
      prepare_chunk_def chunk_key_def new_session_row_def dimensions_def upsert_chunk_def
      new_chunk_row_def session_fields_def enumerate_Suc_eq pg_eval js_def)
qed

text \<open>The example file ingested once more, with the clock of the store where it was.\<close>

lemma demo_ingest_again:
  "ingest_file demo_fs demo_pg demo_embed768 True
      \<lparr>db = demo_db1, processed = 1, skipped = 0, totalChunks = 3\<rparr> demo_path =
     Some \<lparr>db = demo_db1, processed = 2, skipped = 0, totalChunks = 6\<rparr>"
proof -
  have "\<not> (\<exists>m\<in>set (messages demo_session). demo_embed768 (content m) = None)"
    by (simp add: demo_embed768_def)
  then show ?thesis
    unfolding ingest_file_parsed[OF demo_parse demo_session_ok]
    by (simp add: upsert_session_row_def demo_embed768_def Let_def
      demo_session_def demo_db1_def insertChunks_def statement_ok_def set_embeddings_def
      prepare_chunk_def chunk_key_def new_session_row_def dimensions_def upsert_chunk_def
      new_chunk_row_def session_fields_def enumerate_Suc_eq pg_eval js_def update_session_def
      update_chunk_def)
qed









subsection \<open>A failed attempt\<close>




subsection \<open>Ingesting a file again\<close>

text \<open>
  Claim C9. In a store whose session names are unique, once a file has been ingested, ingesting
  the same file again (whether that second attempt succeeds or fails) leaves exactly one session
  row for its identifier, the same rows with the same identifiers in the table \<open>sessions\<close>,
  and the same chunk keys, hence the same number of chunks.
\<close>

theorem reingest_same_file:
  assumes wf: "distinct (map session_id (sessions (db st)))"
    and first: "ingest_file fs pg embedOne1 flag1 st file = Some st1"
    and ok: "processed st1 = processed st + 1"
    and second: "ingest_file fs pg embedOne2 flag2 st1 file = Some st2"
  shows "\<exists>session. parseSessionFile fs file = Some session
       \<and> length (filter (\<lambda>r. session_id r = sessionId session) (sessions (db st2))) = 1
       \<and> map row_id (sessions (db st2)) = map row_id (sessions (db st1))
       \<and> map session_id (sessions (db st2)) = map session_id (sessions (db st1))
       \<and> map chunk_key (chunks (db st2)) = map chunk_key (chunks (db st1))
       \<and> length (chunks (db st2)) = length (chunks (db st1))"
proof -
  from first ok obtain session where parse: "parseSessionFile fs file = Some session"
    by (cases "parseSessionFile fs file") (auto simp: ingest_file_def)
  let ?f = "session_fields session"
  have acc: "session_ok pg ?f"
  proof (rule ccontr)
    assume "\<not> session_ok pg ?f"
    from first ok show False
      unfolding ingest_file_rejected[OF parse \<open>\<not> session_ok pg ?f\<close>] by auto
  qed
  let ?db1 = "fst (upsert_session_row (db st) ?f)"
  let ?id1 = "snd (upsert_session_row (db st) ?f)"
  let ?cs1 = "map (prepare_chunk ?id1) (messages session)"
  let ?cs1' = "if flag1 then set_embeddings ?cs1 (map embedOne1 (map c_content ?cs1)) else ?cs1"
  let ?db1' = "fst (upsert_session_row (db st1) ?f)"
  let ?id2 = "snd (upsert_session_row (db st1) ?f)"
  let ?cs2 = "map (prepare_chunk ?id2) (messages session)"
  let ?cs2' = "if flag2 then set_embeddings ?cs2 (map embedOne2 (map c_content ?cs2)) else ?cs2"
  \<comment> \<open>the first run inserted the chunks\<close>
  from first ok have ins1: "insertChunks pg ?db1 ?cs1' = Inr (db st1)"
    unfolding ingest_file_parsed[OF parse acc]
    by (auto simp: Let_def split: if_splits sum.splits)
  have s1: "sessions (db st1) = sessions ?db1"
    by (rule insertChunks_sessions[OF ins1])
  have d1: "distinct (map session_id (sessions (db st1)))"
    unfolding s1 by (rule upsert_session_row_distinct[OF wf])
  from upsert_session_row_returns[of "db st" ?f] obtain r where
    r: "r \<in> set (sessions (db st1))" "session_id r = session_id ?f" "row_id r = ?id1"
    unfolding s1 by blast
  then have mem: "session_id ?f \<in> session_id ` set (sessions (db st1))"
    by (auto intro: rev_image_eqI)
  \<comment> \<open>the second upsert finds that row\<close>
  have id: "?id2 = ?id1"
    using upsert_session_row_again[OF d1 r(1,2)] r(3) by simp
  have sid: "map session_id (sessions ?db1') = map session_id (sessions (db st1))"
    using mem by (simp add: upsert_session_row_ids)
  have rid: "map row_id (sessions ?db1') = map row_id (sessions (db st1))"
    by (rule upsert_session_row_keeps_ids[OF mem])
  have keys1: "chunk_key ` set ?cs2' \<subseteq> chunk_key ` set (chunks ?db1')"
  proof -
    have "map chunk_key ?cs2' = map chunk_key ?cs1'"
      by (simp add: id)
    then have "chunk_key ` set ?cs2' = chunk_key ` set ?cs1'"
      by (metis set_map)
    with insertChunks_covers[OF ins1] show ?thesis by simp
  qed
  \<comment> \<open>the second run ends in one of two ways\<close>
  from second have "db st2 = ?db1' \<or> insertChunks pg ?db1' ?cs2' = Inr (db st2)"
    unfolding ingest_file_parsed[OF parse acc]
    by (auto simp: Let_def split: if_splits sum.splits)
  then have s2: "sessions (db st2) = sessions ?db1'"
    and k2: "map chunk_key (chunks (db st2)) = map chunk_key (chunks (db st1))"
    using insertChunks_sessions[of pg ?db1' ?cs2' "db st2"]
      insertChunks_present[of pg ?db1' ?cs2' "db st2", OF _ keys1]
    by auto
  have "length (filter (\<lambda>r. session_id r = sessionId session) (sessions (db st2))) = 1"
  proof (rule distinct_filter_one)
    show "distinct (map session_id (sessions (db st2)))"
      unfolding s2 sid by (rule d1)
    have "session_id ` set (sessions (db st2)) = session_id ` set (sessions (db st1))"
      unfolding s2 using sid by (metis set_map)
    with mem show "sessionId session \<in> session_id ` set (sessions (db st2))"
      by (simp add: session_fields_def)
  qed
  moreover from k2 have "length (chunks (db st2)) = length (chunks (db st1))"
    by (metis length_map)
  ultimately show ?thesis
    using parse k2 by (intro exI[of _ session]) (simp add: s2 sid rid)
qed

text \<open>
  C9 on the example file: ingested into the empty store, then again. Both runs succeed, and
  after the second there is one session row and there are the three chunks of the first.
\<close>

theorem reingest_same_file_witness:
  "\<exists>st1 st2. ingest_file demo_fs demo_pg demo_embed768 True run0 demo_path = Some st1
     \<and> ingest_file demo_fs demo_pg demo_embed768 True st1 demo_path = Some st2
     \<and> processed st1 = 1 \<and> processed st2 = 2
     \<and> map session_id (sessions (db st1)) = [js ''ses_1'']
     \<and> map session_id (sessions (db st2)) = [js ''ses_1'']
     \<and> map chunk_key (chunks (db st1)) = [(0, 0), (0, 1), (0, 2)]
     \<and> map chunk_key (chunks (db st2)) = [(0, 0), (0, 1), (0, 2)]
     \<and> length (chunks (db st2)) = 3"
proof -
  let ?st1 = "\<lparr>db = demo_db1, processed = 1, skipped = 0, totalChunks = 3\<rparr>"
  let ?st2 = "\<lparr>db = demo_db1, processed = 2, skipped = 0, totalChunks = 6\<rparr>"
  have wf: "distinct (map session_id (sessions (db run0)))"
    and ok: "processed ?st1 = processed run0 + 1"
    by (simp_all add: run0_def empty_store_def)
  have s1: "map session_id (sessions (db ?st1)) = [js ''ses_1'']"
    and k1: "map chunk_key (chunks (db ?st1)) = [(0, 0), (0, 1), (0, 2)]"
    by (simp_all add: demo_db1_def demo_session_def new_session_row_def session_fields_def
        new_chunk_row_def prepare_chunk_def chunk_key_def enumerate_Suc_eq)
  from reingest_same_file[OF wf demo_ingest_ok ok demo_ingest_again] s1 k1
  have "map session_id (sessions (db ?st2)) = [js ''ses_1'']"
    and "map chunk_key (chunks (db ?st2)) = [(0, 0), (0, 1), (0, 2)]"
    and "length (chunks (db ?st2)) = 3"
    by auto
  with s1 k1 show ?thesis
    using demo_ingest_ok demo_ingest_again
    by (intro exI[of _ ?st1] exI[of _ ?st2]) simp
qed

section \<open>Properties of search\<close>

lemma joined_mem:
  "(c, s) \<in> set (joined st) \<longleftrightarrow>
     c \<in> set (chunks st) \<and> s \<in> set (sessions st) \<and> row_id s = c_session_id c"
  by (auto simp: joined_def)

lemma sql_limit_Inr:
  "sql_limit n rows = Inr out \<longleftrightarrow> 0 \<le> n \<and> out = take (nat n) rows"
  by (auto simp: sql_limit_def)

lemma descending_neg: "sorted (map (\<lambda>x. - f x) xs) \<Longrightarrow> descending (map f xs)"
  by (simp add: descending_def sorted_wrt_map)

lemma hybridSearch_Inr:
  assumes "hybridSearch ops st embedding keyword limit = Inr results"
  shows "0 \<le> (case limit of None \<Rightarrow> 10 | Some n \<Rightarrow> n)
       \<and> results = map (hybrid_row ops embedding keyword)
           (take (nat (case limit of None \<Rightarrow> 10 | Some n \<Rightarrow> n))
             (sort_key (\<lambda>cs. - score_of ops embedding keyword cs)
                (filter (hybrid_where ops keyword) (joined st))))"
  using assms unfolding hybridSearch_def
  by (cases "sql_limit (case limit of None \<Rightarrow> 10 | Some n \<Rightarrow> n)
          (sort_key (\<lambda>cs. - score_of ops embedding keyword cs)
             (filter (hybrid_where ops keyword) (joined st)))")
    (auto simp: sql_limit_Inr)

lemma semanticSearch_Inr:
  assumes "semanticSearch ops reached st embedding limit roleFilter = Inr results"
  shows "0 \<le> (case limit of None \<Rightarrow> 10 | Some n \<Rightarrow> n)
       \<and> results = map (semantic_row ops embedding)
           (take (nat (case limit of None \<Rightarrow> 10 | Some n \<Rightarrow> n))
             (sort_key (distance_of ops embedding)
                (filter (semantic_where roleFilter)
                   (filter (\<lambda>cs. reached embedding (fst cs)) (joined st)))))"
  using assms unfolding semanticSearch_def
  by (cases "sql_limit (case limit of None \<Rightarrow> 10 | Some n \<Rightarrow> n)
          (sort_key (distance_of ops embedding)
             (filter (semantic_where roleFilter)
                (filter (\<lambda>cs. reached embedding (fst cs)) (joined st))))")
    (auto simp: sql_limit_Inr simp del: filter_filter)

lemma mset_filter_filter_subseteq: "mset (filter P (filter Q xs)) \<subseteq># mset (filter P xs)"
  by (metis mset_filter multiset_filter_mono multiset_filter_subset)

lemma mset_take_subseteq: "mset (take n xs) \<subseteq># mset xs"
proof -
  have "mset xs = mset (take n xs) + mset (drop n xs)"
    by (metis append_take_drop_id mset_append)
  then show ?thesis by simp
qed

lemma hybrid_row_similarity [simp]:
  "r_similarity (hybrid_row ops embedding keyword cs) = score_of ops embedding keyword cs"
  "r_content (hybrid_row ops embedding keyword cs) = c_content (fst cs)"
  by (simp_all add: hybrid_row_def select_row_def)

lemma semantic_row_fields [simp]:
  "r_similarity (semantic_row ops embedding cs) = 1 - distance_of ops embedding cs"
  "r_role (semantic_row ops embedding cs) = role_text (c_role (fst cs))"
  by (simp_all add: semantic_row_def select_row_def)

lemma descending_take: "descending xs \<Longrightarrow> descending (take n xs)"
  unfolding descending_def by (rule sorted_wrt_take)

text \<open>An example: the operators, a query vector, and the store of the example run.\<close>

definition demo_ops :: PgOps where
  "demo_ops =
     \<lparr>cosine_distance = (\<lambda>a b. \<bar>hd a - hd b\<bar> / 100),
      ts_match = (\<lambda>text keyword. keyword \<noteq> [] \<and> str_includes text keyword),
      ts_rank = (\<lambda>text keyword. if keyword = [] then None else Some (1 / 2))\<rparr>"

definition demo_query :: vector where
  "demo_query = replicate 768 20"

lemma demo_joined:
  "joined demo_db1 = map (\<lambda>c. (c, new_session_row (session_fields demo_session) 0 0)) (chunks demo_db1)"
  by (simp add: joined_def demo_db1_def demo_session_def new_session_row_def new_chunk_row_def
      prepare_chunk_def enumerate_Suc_eq)

lemma demo_distances:
  "map (distance_of demo_ops demo_query) (joined demo_db1) = [1 / 100, 0, 15 / 100]"
  unfolding demo_joined
  by (simp add: distance_of_def demo_ops_def demo_query_def demo_db1_def demo_session_def
      new_chunk_row_def prepare_chunk_def demo_embed768_def enumerate_Suc_eq js_def)

text \<open>The three chunk rows and the session row of the example store.\<close>

definition demo_c0 :: ChunkRow where "demo_c0 = chunks demo_db1 ! 0"
definition demo_c1 :: ChunkRow where "demo_c1 = chunks demo_db1 ! 1"
definition demo_c2 :: ChunkRow where "demo_c2 = chunks demo_db1 ! 2"
definition demo_s0 :: SessionRow where "demo_s0 = sessions demo_db1 ! 0"

lemmas demo_store_defs = demo_c0_def demo_c1_def demo_c2_def demo_s0_def
  demo_db1_def demo_session_def new_session_row_def new_chunk_row_def
  prepare_chunk_def demo_embed768_def enumerate_Suc_eq session_fields_def

lemma demo_joined3:
  "joined demo_db1 = [(demo_c0, demo_s0), (demo_c1, demo_s0), (demo_c2, demo_s0)]"
  by (simp add: joined_def demo_store_defs)

lemma demo_chunk_fields:
  "c_role demo_c0 = Tool" "c_role demo_c1 = User" "c_role demo_c2 = Assistant"
  "c_embedding demo_c0 = Some (replicate 768 19)"
  "c_embedding demo_c1 = Some (replicate 768 20)"
  "c_embedding demo_c2 = Some (replicate 768 35)"
  "c_content demo_c0 = js ''[Tool Result: Bash]''"
  "c_content demo_c1 = js ''see ./notes/todo now''"
  "c_content demo_c2 = js ''open /home/alice/myapp/src/index.ts''"
  by (simp_all add: demo_store_defs js_def)

lemma demo_distance3:
  "distance_of demo_ops demo_query (demo_c0, s) = 1 / 100"
  "distance_of demo_ops demo_query (demo_c1, s) = 0"
  "distance_of demo_ops demo_query (demo_c2, s) = 15 / 100"
  by (simp_all add: distance_of_def demo_ops_def demo_query_def demo_chunk_fields)

lemma demo_match3:
  "ts_match demo_ops (c_content demo_c0) (js ''todo'') = False"
  "ts_match demo_ops (c_content demo_c1) (js ''todo'') = True"
  "ts_match demo_ops (c_content demo_c2) (js ''todo'') = False"
  "ts_match demo_ops (c_content demo_c0) (js ''missing'') = False"
  "ts_match demo_ops (c_content demo_c1) (js ''missing'') = False"
  "ts_match demo_ops (c_content demo_c2) (js ''missing'') = False"
  "ts_rank demo_ops text (js ''todo'') = Some (1 / 2)"
  by (simp_all add: demo_ops_def demo_chunk_fields js_def)

text \<open>
  Claim C3. Every row that hybrid search returns comes from a chunk that has an embedding and
  whose content matches the query string, and carries the score
  \<open>0.7 * (1 - distance) + 0.3 * rank\<close>, the rank counted as 0 when it is null; a chunk without
  a lexical match is never returned, whatever its distance. The rows come by descending score
  and are the first \<open>limit\<close> of all qualifying rows in that order. A distance of 0.2 with a rank
  of 0.5 scores 0.71.
\<close>

theorem hybrid_search_ranking:
  assumes "hybridSearch ops st embedding keyword limit = Inr results"
  shows "(\<forall>r\<in>set results. \<exists>c\<in>set (chunks st). \<exists>s\<in>set (sessions st).
            row_id s = c_session_id c \<and> c_embedding c \<noteq> None
            \<and> ts_match ops (c_content c) keyword
            \<and> r = select_row c s
                 (7 / 10 * (1 - cosine_distance ops (the (c_embedding c)) embedding)
                  + 3 / 10 * (case ts_rank ops (c_content c) keyword of None \<Rightarrow> 0 | Some x \<Rightarrow> x)))
       \<and> (\<forall>r\<in>set results. ts_match ops (r_content r) keyword)
       \<and> descending (map r_similarity results)
       \<and> length results =
           min (nat (case limit of None \<Rightarrow> 10 | Some n \<Rightarrow> n))
             (length (filter (hybrid_where ops keyword) (joined st)))
       \<and> (\<exists>rest. mset (results @ rest) =
                    mset (map (hybrid_row ops embedding keyword)
                           (filter (hybrid_where ops keyword) (joined st)))
                 \<and> descending (map r_similarity (results @ rest)))
       \<and> hybrid_score (2 / 10) (Some (5 / 10)) = 71 / 100"
proof -
  let ?n = "nat (case limit of None \<Rightarrow> 10 | Some n \<Rightarrow> n)"
  let ?rows = "filter (hybrid_where ops keyword) (joined st)"
  let ?L = "sort_key (\<lambda>cs. - score_of ops embedding keyword cs) ?rows"
  let ?row = "hybrid_row ops embedding keyword"
  from hybridSearch_Inr[OF assms] have res: "results = map ?row (take ?n ?L)" by simp
  have desc: "descending (map (score_of ops embedding keyword) ?L)"
    by (rule descending_neg) (rule sorted_sort_key)
  have sim: "map r_similarity (map ?row xs) = map (score_of ops embedding keyword) xs" for xs
    by simp
  have mem: "\<exists>c\<in>set (chunks st). \<exists>s\<in>set (sessions st).
            row_id s = c_session_id c \<and> c_embedding c \<noteq> None
            \<and> ts_match ops (c_content c) keyword
            \<and> r = select_row c s
                 (7 / 10 * (1 - cosine_distance ops (the (c_embedding c)) embedding)
                  + 3 / 10 * (case ts_rank ops (c_content c) keyword of None \<Rightarrow> 0 | Some x \<Rightarrow> x))"
    if "r \<in> set results" for r
  proof -
    from that obtain cs where cs: "cs \<in> set (take ?n ?L)" "r = ?row cs"
      unfolding res by auto
    from cs(1) have "cs \<in> set ?rows"
      using set_take_subset[of ?n ?L] by auto
    then have j: "(fst cs, snd cs) \<in> set (joined st)" and w: "hybrid_where ops keyword cs"
      by simp_all
    from j have "fst cs \<in> set (chunks st)" "snd cs \<in> set (sessions st)"
      "row_id (snd cs) = c_session_id (fst cs)"
      unfolding joined_mem by simp_all
    with w cs(2) show ?thesis
      by (intro bexI[of _ "fst cs"] bexI[of _ "snd cs"])
        (simp_all add: hybrid_where_def hybrid_row_def score_of_def hybrid_score_def
          distance_of_def)
  qed
  have m2: "ts_match ops (r_content r) keyword" if "r \<in> set results" for r
    using mem[OF that] by (auto simp: select_row_def)
  have d: "descending (map r_similarity results)"
    unfolding res sim take_map[symmetric] by (rule descending_take[OF desc])
  have len: "length results = min ?n (length ?rows)"
    by (simp add: res)
  have "mset (results @ map ?row (drop ?n ?L)) = mset (map ?row ?rows)"
    unfolding res by (simp flip: map_append)
  moreover have "descending (map r_similarity (results @ map ?row (drop ?n ?L)))"
    unfolding res using desc by (simp flip: map_append add: comp_def)
  ultimately have rest: "\<exists>rest. mset (results @ rest) = mset (map ?row ?rows)
                 \<and> descending (map r_similarity (results @ rest))"
    by blast
  have ex: "hybrid_score (2 / 10) (Some (5 / 10)) = 71 / 100"
    by (simp add: hybrid_score_def)
  from mem m2 d len rest ex show ?thesis by blast
qed

text \<open>
  C3 on the example store: only the chunk that contains \<open>todo\<close> is returned, with score 0.85,
  and no chunk matches \<open>missing\<close>.
\<close>

theorem hybrid_search_ranking_witness:
  "hybridSearch demo_ops demo_db1 demo_query (js ''todo'') None =
     Inr [select_row demo_c1 demo_s0 (85 / 100)]
   \<and> hybridSearch demo_ops demo_db1 demo_query (js ''missing'') (Some 5) = Inr []"
proof -
  have a: "hybridSearch demo_ops demo_db1 demo_query (js ''todo'') None =
     Inr [select_row demo_c1 demo_s0 (85 / 100)]"
    by (simp add: hybridSearch_def sql_limit_def demo_joined3 hybrid_where_def score_of_def
        hybrid_score_def hybrid_row_def demo_distance3 demo_match3 demo_chunk_fields(4-6))
  have b: "hybridSearch demo_ops demo_db1 demo_query (js ''missing'') (Some 5) = Inr []"
    by (simp add: hybridSearch_def sql_limit_def demo_joined3 hybrid_where_def demo_match3)
  from hybrid_search_ranking[OF a] a b show ?thesis by simp
qed

text \<open>
  A scan of the index that reaches only the rows whose vector is the query vector itself; the
  vector of the example query is the one of the second chunk.
\<close>

definition demo_scan :: scan where
  "demo_scan q c \<longleftrightarrow> c_embedding c = Some q"

lemma demo_reached3:
  "demo_scan demo_query demo_c0 = False"
  "demo_scan demo_query demo_c1 = True"
  "demo_scan demo_query demo_c2 = False"
  by (simp_all add: demo_scan_def demo_query_def demo_chunk_fields)

text \<open>The roles of the rows that a search returns.\<close>

definition roles_returned :: "error + SearchResult list \<Rightarrow> jsstring list" where
  "roles_returned res = (case res of Inl e \<Rightarrow> [] | Inr rows \<Rightarrow> map r_role rows)"

text \<open>
  Whatever else a scan reaches, if it reaches the second chunk then the search for that chunk's
  vector returns it: alone when the role \<open>user\<close> is asked for, and among the rows returned when
  the filter is the empty string.
\<close>

lemma demo_search_user:
  assumes "reached demo_query demo_c1"
  shows "semanticSearch demo_ops reached demo_db1 demo_query (Some 2) (Some (js ''user'')) =
     Inr [select_row demo_c1 demo_s0 1]"
  using assms
  by (simp add: semanticSearch_def sql_limit_def demo_joined3 semantic_where_def demo_distance3
      demo_chunk_fields(1-6) semantic_row_def js_def)

lemma demo_search_empty_filter:
  assumes "reached demo_query demo_c1"
  shows "js ''user'' \<in> set (roles_returned
      (semanticSearch demo_ops reached demo_db1 demo_query (Some 10) (Some [])))"
proof -
  let ?rows = "filter (semantic_where (Some []))
                 (filter (\<lambda>cs. reached demo_query (fst cs)) (joined demo_db1))"
  have "length ?rows \<le> 3"
    using length_filter_le[of "semantic_where (Some [])"
        "filter (\<lambda>cs. reached demo_query (fst cs)) (joined demo_db1)"]
      length_filter_le[of "\<lambda>cs. reached demo_query (fst cs)" "joined demo_db1"]
    by (simp add: demo_joined3 del: filter_filter)
  then have all: "take 10 (sort_key (distance_of demo_ops demo_query) ?rows)
                    = sort_key (distance_of demo_ops demo_query) ?rows"
    by simp
  have "semanticSearch demo_ops reached demo_db1 demo_query (Some 10) (Some []) =
          Inr (map (semantic_row demo_ops demo_query)
                 (take 10 (sort_key (distance_of demo_ops demo_query) ?rows)))"
    by (simp add: semanticSearch_def sql_limit_def del: filter_filter)
  then have eq: "roles_returned
          (semanticSearch demo_ops reached demo_db1 demo_query (Some 10) (Some [])) =
        map (\<lambda>cs. role_text (c_role (fst cs))) (sort_key (distance_of demo_ops demo_query) ?rows)"
    unfolding all by (simp add: roles_returned_def comp_def)
  have "(demo_c1, demo_s0) \<in> set ?rows"
    using assms by (simp add: demo_joined3 semantic_where_def demo_chunk_fields(1-6))
  then have "role_text (c_role (fst (demo_c1, demo_s0)))
      \<in> set (map (\<lambda>cs. role_text (c_role (fst cs)))
               (sort_key (distance_of demo_ops demo_query) ?rows))"
    unfolding set_map set_sort by (rule imageI)
  then show ?thesis
    unfolding eq by (simp add: demo_chunk_fields)
qed

text \<open>
  Claim C4, as stated, fails: an empty string given as role filter is falsy, so no role
  condition is added, and the search for the vector of the second chunk returns that chunk,
  whose role is \<open>user\<close>, not the role asked for.
\<close>

theorem semantic_search_counterexample:
  "js ''user'' \<in> set (roles_returned
      (semanticSearch demo_ops demo_scan demo_db1 demo_query (Some 10) (Some [])))"
  by (rule demo_search_empty_filter) (simp add: demo_reached3)

text \<open>
  Claim C4, amended. Pure-similarity search returns only rows of chunks whose embedding is not
  null and, when a non-empty role filter is given, whose role equals it (an empty filter counts
  as none); each row reports \<open>1 - distance\<close> as its similarity; the rows come by ascending
  distance, they are at most \<open>limit\<close>, and no qualifying row comes twice. Whatever rows the scan
  reaches, this holds; that every qualifying row, or the nearest, is among them does not follow.
\<close>

theorem semantic_search_ranking:
  assumes "semanticSearch ops reached st embedding limit roleFilter = Inr results"
  shows "(\<forall>r\<in>set results. \<exists>c\<in>set (chunks st). \<exists>s\<in>set (sessions st).
            row_id s = c_session_id c \<and> c_embedding c \<noteq> None
            \<and> r = select_row c s (1 - cosine_distance ops (the (c_embedding c)) embedding))
       \<and> (truthy roleFilter \<longrightarrow> (\<forall>r\<in>set results. r_role r = the roleFilter))
       \<and> sorted (map (\<lambda>r. 1 - r_similarity r) results)
       \<and> int (length results) \<le> (case limit of None \<Rightarrow> 10 | Some n \<Rightarrow> n)
       \<and> mset results \<subseteq>#
           mset (map (semantic_row ops embedding)
                  (filter (semantic_where roleFilter) (joined st)))"
proof -
  let ?n = "nat (case limit of None \<Rightarrow> 10 | Some n \<Rightarrow> n)"
  let ?all = "filter (semantic_where roleFilter) (joined st)"
  let ?rows = "filter (semantic_where roleFilter)
                 (filter (\<lambda>cs. reached embedding (fst cs)) (joined st))"
  let ?L = "sort_key (distance_of ops embedding) ?rows"
  let ?row = "semantic_row ops embedding"
  from semanticSearch_Inr[OF assms]
  have res: "results = map ?row (take ?n ?L)"
    and lim: "0 \<le> (case limit of None \<Rightarrow> 10 | Some n \<Rightarrow> n)"
    by simp_all
  have asc: "sorted (map (distance_of ops embedding) ?L)"
    by (rule sorted_sort_key)
  have dist: "map (\<lambda>r. 1 - r_similarity r) (map ?row xs) = map (distance_of ops embedding) xs" for xs
    by simp
  have mem: "\<exists>c\<in>set (chunks st). \<exists>s\<in>set (sessions st).
            row_id s = c_session_id c \<and> c_embedding c \<noteq> None
            \<and> (truthy roleFilter \<longrightarrow> r_role r = the roleFilter)
            \<and> r = select_row c s (1 - cosine_distance ops (the (c_embedding c)) embedding)"
    if "r \<in> set results" for r
  proof -
    from that obtain cs where cs: "cs \<in> set (take ?n ?L)" "r = ?row cs"
      unfolding res by auto
    from cs(1) have "cs \<in> set ?rows"
      using set_take_subset[of ?n ?L] by auto
    then have j: "(fst cs, snd cs) \<in> set (joined st)" and w: "semantic_where roleFilter cs"
      by simp_all
    from j have "fst cs \<in> set (chunks st)" "snd cs \<in> set (sessions st)"
      "row_id (snd cs) = c_session_id (fst cs)"
      unfolding joined_mem by simp_all
    with w cs(2) show ?thesis
      by (intro bexI[of _ "fst cs"] bexI[of _ "snd cs"])
        (auto simp: semantic_where_def semantic_row_def distance_of_def case_prod_unfold
          select_row_def split: if_splits)
  qed
  have s: "sorted (map (\<lambda>r. 1 - r_similarity r) results)"
    unfolding res dist take_map[symmetric] by (rule sorted_wrt_take[OF asc])
  have len: "int (length results) \<le> (case limit of None \<Rightarrow> 10 | Some n \<Rightarrow> n)"
    using lim by (simp add: res)
  have "mset (take ?n ?L) \<subseteq># mset ?L"
    by (rule mset_take_subseteq)
  also have "mset ?L = mset ?rows"
    by simp
  also have "mset ?rows \<subseteq># mset ?all"
    by (rule mset_filter_filter_subseteq)
  finally have "image_mset ?row (mset (take ?n ?L)) \<subseteq># image_mset ?row (mset ?all)"
    by (rule image_mset_subseteq_mono)
  then have sub: "mset results \<subseteq># mset (map ?row ?all)"
    by (simp add: res)
  from mem s len sub show ?thesis by blast
qed

text \<open>
  C4 on the example store: the search for the vector of the second chunk among the chunks of
  role \<open>user\<close> returns that chunk, with similarity 1.
\<close>

theorem semantic_search_ranking_witness:
  "semanticSearch demo_ops demo_scan demo_db1 demo_query (Some 2) (Some (js ''user'')) =
     Inr [select_row demo_c1 demo_s0 1]"
proof -
  have a: "semanticSearch demo_ops demo_scan demo_db1 demo_query (Some 2) (Some (js ''user'')) =
     Inr [select_row demo_c1 demo_s0 1]"
    by (rule demo_search_user) (simp add: demo_reached3)
  from semantic_search_ranking[OF a] a show ?thesis by simp
qed

end
